theory Spec2Isabelle
  imports Complex_Main "HOL-Library.Word" "HOL-Library.Sublist"
begin

section \<open>JavaScript strings\<close>

text \<open>
  A JavaScript string is a sequence of UTF-16 code units; \<open>s.length\<close> counts code units
  and \<open>s.slice\<close> cuts between them. A string is therefore a list of 16-bit words. The
  literals of the source are ASCII and are written through \<open>js\<close>.
\<close>

type_synonym jschar = "16 word"
type_synonym jsstring = "jschar list"

definition js :: "string \<Rightarrow> jsstring" where
  "js s = map (\<lambda>c. of_nat (of_char c)) s"

definition nl :: jsstring where
  "nl = [10]"

text \<open>
  \<open>String.prototype.slice(a, b)\<close> for non-negative integer arguments: both bounds are
  clamped to the length, and an empty string results when the clamped end is not after the
  clamped start.
\<close>

definition js_slice :: "'a list \<Rightarrow> nat \<Rightarrow> nat \<Rightarrow> 'a list" where
  "js_slice s a b =
     (let len = length s; from = min a len; to = min b len
      in take (to - from) (drop from s))"

text \<open>\<open>String.prototype.includes(needle)\<close>: some position of the string starts with the needle.\<close>

fun js_includes :: "'a list \<Rightarrow> 'a list \<Rightarrow> bool" where
  "js_includes [] needle = (needle = [])"
| "js_includes (c # cs) needle = (prefix needle (c # cs) \<or> js_includes cs needle)"

text \<open>
  \<open>String.prototype.trim()\<close> removes the code units of WhiteSpace and LineTerminator
  from both ends.
\<close>

definition is_space :: "jschar \<Rightarrow> bool" where
  "is_space c \<longleftrightarrow>
     c \<in> {0x0009, 0x000A, 0x000B, 0x000C, 0x000D, 0x0020, 0x00A0, 0x1680,
          0x2000, 0x2001, 0x2002, 0x2003, 0x2004, 0x2005, 0x2006, 0x2007, 0x2008, 0x2009, 0x200A,
          0x2028, 0x2029, 0x202F, 0x205F, 0x3000, 0xFEFF}"

definition trim :: "jsstring \<Rightarrow> jsstring" where
  "trim s = rev (dropWhile is_space (rev (dropWhile is_space s)))"

text \<open>The decimal digits of a number, as a template literal prints \<open>${i + 1}\<close>.\<close>

fun show_nat :: "nat \<Rightarrow> jsstring" where
  "show_nat n = (if n < 10 then [of_nat (48 + n)] else show_nat (n div 10) @ [of_nat (48 + n mod 10)])"

declare show_nat.simps [simp del]

text \<open>
  \<open>Math.ceil(a / b)\<close> for a non-negative integer \<open>a\<close> and a positive integer \<open>b\<close>.
  The source computes the quotient in double precision; for the lengths a string can have
  (below \<open>2^53\<close>) and the divisors used here the rounded quotient has the same ceiling as the
  exact one, which \<open>math_ceil_div_real\<close> below relates to this definition.
\<close>

definition math_ceil_div :: "nat \<Rightarrow> nat \<Rightarrow> nat" where
  "math_ceil_div a b = (if a mod b = 0 then a div b else a div b + 1)"

section \<open>The completion call: \<open>getAiResponse\<close>\<close>

text \<open>
  The completion collaborator is external. One attempt either throws (with the message of
  the error) or answers with the content of the first choice, which may be \<open>null\<close>.
  A world \<open>create query i\<close> gives the outcome of attempt \<open>i\<close> for the prompt \<open>query\<close>.
\<close>

datatype completion_outcome = Throws jsstring | Content "jsstring option"

type_synonym completion_world = "jsstring \<Rightarrow> nat \<Rightarrow> completion_outcome"

text \<open>What a call does besides returning: the requests it sends and the delays it waits.\<close>

datatype event = Create jsstring | ReadJina jsstring | SearchGoogle jsstring | Sleep nat

definition think_open :: jsstring where
  "think_open = js ''<think>''"

definition think_close :: jsstring where
  "think_close = js ''</think>''"

text \<open>The rest of a string after the first occurrence of a needle, if there is one.\<close>

fun after_first :: "'a list \<Rightarrow> 'a list \<Rightarrow> 'a list option" where
  "after_first needle [] = (if needle = [] then Some [] else None)"
| "after_first needle (c # cs) =
     (if prefix needle (c # cs) then Some (drop (length needle) (c # cs))
      else after_first needle cs)"

lemma after_first_length: "after_first needle s = Some r \<Longrightarrow> length r \<le> length s"
  by (induction s) (auto split: if_splits)

text \<open>
  \<open>content.replace(/<think>[\s\S]*?<\/think>/g, "")\<close>: the string is scanned from the left;
  where an opening tag starts and a closing tag follows it, everything up to the end of the
  first such closing tag is dropped (the quantifier is lazy) and the scan goes on behind it;
  otherwise the code unit is kept.
\<close>

function strip_think :: "jsstring \<Rightarrow> jsstring" where
  "strip_think [] = []"
| "strip_think (c # cs) =
     (if prefix think_open (c # cs) then
        (case after_first think_close (drop (length think_open) (c # cs)) of
           Some rest \<Rightarrow> strip_think rest
         | None \<Rightarrow> c # strip_think cs)
      else c # strip_think cs)"
  by pat_completeness auto
termination
proof (relation "measure length")
  fix c :: jschar and cs rest :: jsstring
  assume "prefix think_open (c # cs)"
    and r: "after_first think_close (drop (length think_open) (c # cs)) = Some rest"
  have "length rest \<le> length (drop (length think_open) (c # cs))"
    using r by (rule after_first_length)
  moreover have "length think_open = 7"
    by (simp add: think_open_def js_def)
  ultimately show "(rest, c # cs) \<in> measure length"
    by simp
qed simp_all

declare strip_think.simps [simp del]

text \<open>
  The retry loop of \<open>getAiResponse\<close>, from attempt \<open>i\<close> on. A response ends the loop with the
  stripped and trimmed content (\<open>content || ""\<close> turns \<open>null\<close> into the empty string); an
  exception is followed by a delay of \<open>1000 * 2^i\<close> milliseconds unless it was the last attempt.
  The loop falls through to \<open>return null\<close>.
\<close>

function ai_loop ::
  "completion_world \<Rightarrow> jsstring \<Rightarrow> nat \<Rightarrow> nat \<Rightarrow> jsstring option \<times> event list" where
  "ai_loop create query maxRetry i =
     (if i < maxRetry then
        (case create query i of
           Content content \<Rightarrow>
             (Some (trim (strip_think (case content of None \<Rightarrow> [] | Some t \<Rightarrow> t))),
              [Create query])
         | Throws message \<Rightarrow>
             (let (r, tr) = ai_loop create query maxRetry (i + 1)
              in (r, Create query #
                     (if i < maxRetry - 1 then [Sleep (1000 * 2 ^ i)] else []) @ tr)))
      else (None, []))"
  by pat_completeness auto
termination
  by (relation "measure (\<lambda>(create, query, maxRetry, i). maxRetry - i)") auto

declare ai_loop.simps [simp del]

text \<open>
  The events of \<open>k\<close> attempts that all throw, under a budget of \<open>maxRetry\<close> attempts: each
  is a request, followed by the delay unless it was the last attempt of the budget.
\<close>

definition failed_attempts :: "jsstring \<Rightarrow> nat \<Rightarrow> nat \<Rightarrow> event list" where
  "failed_attempts query maxRetry k =
     concat (map (\<lambda>i. Create query # (if i < maxRetry - 1 then [Sleep (1000 * 2 ^ i)] else []))
                 [0..<k])"

definition getAiResponse ::
  "completion_world \<Rightarrow> jsstring \<Rightarrow> nat \<Rightarrow> jsstring option \<times> event list" where
  "getAiResponse create query maxRetry = ai_loop create query maxRetry 0"

section \<open>The answerer pipeline: \<open>getBrowseAnswer\<close>\<close>

definition tokenLimit :: nat where
  "tokenLimit = 190000"

definition charLimit :: nat where
  "charLimit = tokenLimit * 4"

definition chunk_query :: "jsstring \<Rightarrow> jsstring \<Rightarrow> jsstring" where
  "chunk_query chunk browseQuery =
     js ''Please read the source content and answer a following question:'' @ nl @
     js ''--- begin of source content ---'' @ nl @ chunk @ nl @
     js ''--- end of source content ---'' @ nl @ nl @
     js ''If there is no relevant information, please clearly refuse to answer.'' @ nl @
     js ''When answering, please identify and extract the original content as the evidence. Now answer the question based on the above content:'' @ nl @
     browseQuery"

definition whole_query :: "jsstring \<Rightarrow> jsstring \<Rightarrow> jsstring" where
  "whole_query sourceText browseQuery =
     js ''Please read the source content and answer a following question:'' @ nl @
     js ''---begin of source content---'' @ nl @ sourceText @ nl @
     js ''---end of source content---'' @ nl @ nl @
     js ''If there is no relevant information, please clearly refuse to answer.'' @ nl @
     js ''When answering, please identify and extract the original content as the evidence. Now answer the question based on the above content:'' @ nl @
     browseQuery"

text \<open>
  The loop that cuts the chunks and starts one \<open>getAiResponse\<close> per chunk. \<open>promises\<close>
  collects the prompts of the calls in the order they are pushed.
\<close>

function chunk_loop ::
  "jsstring \<Rightarrow> jsstring \<Rightarrow> nat \<Rightarrow> nat \<Rightarrow> nat \<Rightarrow> jsstring list \<Rightarrow> jsstring list" where
  "chunk_loop sourceText browseQuery numSplit chunkLen i promises =
     (if i < numSplit then
        (let chunk = js_slice sourceText (i * chunkLen) ((i + 1) * chunkLen + 1024);
             query = chunk_query chunk browseQuery
         in chunk_loop sourceText browseQuery numSplit chunkLen (i + 1) (promises @ [query]))
      else promises)"
  by pat_completeness auto
termination
  by (relation "measure (\<lambda>(sourceText, browseQuery, numSplit, chunkLen, i, promises). numSplit - i)")
     auto

declare chunk_loop.simps [simp del]

definition split_note :: jsstring where
  "split_note =
     js ''Since the content is too long, the result is split and answered separately. Please combine the results to get the complete answer.'' @ nl"

definition result_part :: "nat \<Rightarrow> jsstring \<Rightarrow> jsstring" where
  "result_part k r =
     js ''--- begin of result part '' @ show_nat k @ js '' ---'' @ nl @ r @ nl @
     js ''--- end of result part '' @ show_nat k @ js '' ---'' @ nl @ nl"

text \<open>
  The loop over \<open>results\<close>, from index \<open>i\<close> on: a falsy entry (\<open>null\<close> or the empty string)
  makes the function return \<open>null\<close>; any other entry is appended as part \<open>i + 1\<close>.
\<close>

fun combine_loop :: "jsstring option list \<Rightarrow> nat \<Rightarrow> jsstring \<Rightarrow> jsstring option" where
  "combine_loop [] i combined = Some combined"
| "combine_loop (r # rs) i combined =
     (case r of
        None \<Rightarrow> None
      | Some t \<Rightarrow> if t = [] then None else combine_loop rs (i + 1) (combined @ result_part (i + 1) t))"

text \<open>
  \<open>getBrowseAnswer\<close>. The calls of one fan-out run concurrently against the collaborator,
  so each call \<open>i\<close> has a world \<open>creates i\<close> of its own. The function returns its value and,
  for every \<open>getAiResponse\<close> call it started, the prompt passed to the call and the events
  of the call; \<open>Promise.all\<close> delivers the values in the order of the calls.
\<close>

type_synonym ai_call = "jsstring \<times> event list"

definition getBrowseAnswer ::
  "(nat \<Rightarrow> completion_world) \<Rightarrow> jsstring \<Rightarrow> jsstring \<Rightarrow> nat \<Rightarrow>
     jsstring option \<times> ai_call list" where
  "getBrowseAnswer creates sourceText browseQuery maxRetry =
     (if length sourceText > charLimit then
        (let numSplit = math_ceil_div (length sourceText) charLimit;
             chunkLen = math_ceil_div (length sourceText) numSplit;
             promises = chunk_loop sourceText browseQuery numSplit chunkLen 0 [];
             runs = map (\<lambda>(i, query). (query, getAiResponse (creates i) query maxRetry))
                        (enumerate 0 promises);
             results = map (\<lambda>(query, r, tr). r) runs
         in (combine_loop results 0 split_note, map (\<lambda>(query, r, tr). (query, tr)) runs))
      else
        (let query = whole_query sourceText browseQuery;
             (r, tr) = getAiResponse (creates 0) query maxRetry
         in (r, [(query, tr)])))"

section \<open>Search: \<open>getBriefText\<close> and \<open>getSearchResults\<close>\<close>

record SearchResult =
  title :: jsstring
  link :: "jsstring option"
  url :: "jsstring option"
  snippet :: "jsstring option"
  description :: "jsstring option"
  extra_snippets :: "jsstring list option"

text \<open>A string-valued expression is truthy when it is neither \<open>undefined\<close> nor empty.\<close>

definition truthy :: "jsstring option \<Rightarrow> bool" where
  "truthy v = (case v of None \<Rightarrow> False | Some t \<Rightarrow> t \<noteq> [])"

text \<open>\<open>Array.prototype.join(sep)\<close>.\<close>

fun js_join :: "'a list \<Rightarrow> 'a list list \<Rightarrow> 'a list" where
  "js_join sep [] = []"
| "js_join sep [x] = x"
| "js_join sep (x # y # ys) = x @ sep @ js_join sep (y # ys)"

definition brief_entry :: "SearchResult \<Rightarrow> jsstring" where
  "brief_entry content =
     (let snippet' =
            (case extra_snippets content of
               Some (e # es) \<Rightarrow> js_join nl (e # es)
             | _ \<Rightarrow>
                 (case snippet content of
                    Some (c # cs) \<Rightarrow> c # cs
                  | _ \<Rightarrow> (case description content of Some d \<Rightarrow> d | None \<Rightarrow> [])));
          url' =
            (case url content of
               Some (c # cs) \<Rightarrow> c # cs
             | _ \<Rightarrow> (case link content of Some (c # cs) \<Rightarrow> c # cs | _ \<Rightarrow> []))
      in js ''<title>'' @ title content @ js ''</title>'' @ nl @
         js ''<url>'' @ url' @ js ''</url>'' @ nl @
         js ''<snippet>'' @ nl @ snippet' @ nl @ js ''</snippet>'' @ nl @ nl)"

fun brief_loop :: "SearchResult list \<Rightarrow> jsstring \<Rightarrow> jsstring" where
  "brief_loop [] sourceText = sourceText"
| "brief_loop (content # contents) sourceText = brief_loop contents (sourceText @ brief_entry content)"

definition getBriefText :: "SearchResult list \<Rightarrow> jsstring" where
  "getBriefText contents = trim (brief_loop contents [])"

text \<open>
  The search provider is external: attempt \<open>i\<close> for a query either throws or delivers the
  \<open>organic\<close> list (\<open>data.organic || []\<close>). \<open>searchGoogle\<close> throws before any request when
  the key is missing.
\<close>

datatype search_outcome = SearchThrows jsstring | Organic "SearchResult list"

type_synonym search_world = "jsstring \<Rightarrow> nat \<Rightarrow> search_outcome"

definition searchGoogle ::
  "jsstring \<Rightarrow> search_world \<Rightarrow> jsstring \<Rightarrow> nat \<Rightarrow> search_outcome \<times> event list" where
  "searchGoogle serperApiKey world query i =
     (if serperApiKey = [] then (SearchThrows (js ''SERPER_API_KEY is missing''), [])
      else (world query i, [SearchGoogle query]))"

definition empty_result :: jsstring where
  "empty_result = js ''Search result is empty. Please try again.''"

definition quote :: jschar where
  "quote = 0x22"

text \<open>
  The retry loop of \<open>getSearchResults\<close>, from attempt \<open>i\<close> on. It yields the value of
  \<open>sourceText\<close> at the end of the loop: the first non-empty brief text (the \<open>break\<close>), or
  the empty string. An empty brief text is followed by the next attempt at once; only an
  exception is followed by a delay.
\<close>

function search_loop ::
  "jsstring \<Rightarrow> search_world \<Rightarrow> jsstring \<Rightarrow> nat \<Rightarrow> nat \<Rightarrow> jsstring \<times> event list" where
  "search_loop serperApiKey world query maxRetry i =
     (if i < maxRetry then
        (case searchGoogle serperApiKey world query i of
           (Organic results, ev) \<Rightarrow>
             (let sourceText = getBriefText results
              in if sourceText \<noteq> [] then (sourceText, ev)
                 else (let (s, tr) = search_loop serperApiKey world query maxRetry (i + 1)
                       in (s, ev @ tr)))
         | (SearchThrows message, ev) \<Rightarrow>
             (let (s, tr) = search_loop serperApiKey world query maxRetry (i + 1)
              in (s, ev @ (if i < maxRetry - 1 then [Sleep (1000 * 2 ^ i)] else []) @ tr)))
      else ([], []))"
  by pat_completeness auto
termination
  by (relation "measure (\<lambda>(serperApiKey, world, query, maxRetry, i). maxRetry - i)") auto

declare search_loop.simps [simp del]

definition fallback_message :: "jsstring \<Rightarrow> jsstring" where
  "fallback_message query =
     js ''Search result for query ['' @ query @
     js ''] is empty. Return search result for cleaned query instead.''"

lemma js_includes_single: "js_includes s [c] \<longleftrightarrow> c \<in> set s"
  by (induction s) auto

text \<open>
  \<open>getSearchResults\<close> calls itself on \<open>query.replace(/"/g, "")\<close>, the query without
  its quotes, with the default retry budget of 3. The cleaned query has no quote left, which
  is why the recursion ends.
\<close>

function getSearchResults ::
  "jsstring \<Rightarrow> search_world \<Rightarrow> jsstring \<Rightarrow> nat \<Rightarrow> jsstring \<times> event list" where
  "getSearchResults serperApiKey world query maxRetry =
     (if trim query = [] then (empty_result, [])
      else
        (let (sourceText, tr) = search_loop serperApiKey world query maxRetry 0
         in if sourceText = [] then
              (if js_includes query [quote] then
                 (let cleaned = removeAll quote query;
                      message = fallback_message query;
                      (fallback, tr') = getSearchResults serperApiKey world cleaned 3
                  in (if fallback \<noteq> [] \<and> \<not> js_includes fallback (js ''Please try again'')
                      then message @ nl @ nl @ fallback
                      else empty_result,
                      tr @ tr'))
               else (empty_result, tr))
            else (sourceText, tr)))"
  by pat_completeness auto
termination
  by (relation "measure (\<lambda>(serperApiKey, world, query, maxRetry).
                            if js_includes query [quote] then 1 else 0)")
     (auto simp: js_includes_single)

declare getSearchResults.simps [simp del]

section \<open>Browse: \<open>getBrowseResults\<close>\<close>

text \<open>The page reader is external: attempt \<open>i\<close> for a URL throws or delivers a text.\<close>

datatype read_outcome = ReadThrows jsstring | ReadText jsstring

type_synonym read_world = "jsstring \<Rightarrow> nat \<Rightarrow> read_outcome"

definition access_denied :: jsstring where
  "access_denied = js ''Access to this URL is denied. Please try again.''"

definition browse_error :: jsstring where
  "browse_error = js ''Browse error. Please try again.''"

text \<open>
  The retry loop of \<open>getBrowseResults\<close>, from attempt \<open>i\<close> on. \<open>Inl\<close> is a \<open>return\<close> from
  inside the loop, \<open>Inr\<close> the value of \<open>sourceText\<close> when the loop is left.
\<close>

function browse_loop ::
  "read_world \<Rightarrow> jsstring \<Rightarrow> nat \<Rightarrow> nat \<Rightarrow> (jsstring + jsstring) \<times> event list" where
  "browse_loop read url' maxRetry i =
     (if i < maxRetry then
        (case read url' i of
           ReadText sourceText \<Rightarrow>
             (if sourceText \<noteq> [] then (Inr sourceText, [ReadJina url'])
              else (let (r, tr) = browse_loop read url' maxRetry (i + 1)
                    in (r, ReadJina url' # tr)))
         | ReadThrows message \<Rightarrow>
             (if js_includes message (js ''Client Error'') then (Inl access_denied, [ReadJina url'])
              else (let (r, tr) = browse_loop read url' maxRetry (i + 1)
                    in (r, ReadJina url' #
                           (if i < maxRetry - 1 then [Sleep (1000 * 2 ^ i)] else []) @ tr))))
      else (Inr [], []))"
  by pat_completeness auto
termination
  by (relation "measure (\<lambda>(read, url', maxRetry, i). maxRetry - i)") auto

declare browse_loop.simps [simp del]

text \<open>
  \<open>getBrowseResults\<close> returns its text, the events of the page reads, and the
  completion calls started by the answerer pipeline (none when the pipeline is not reached).
\<close>

definition getBrowseResults ::
  "read_world \<Rightarrow> (nat \<Rightarrow> completion_world) \<Rightarrow> jsstring \<Rightarrow> jsstring \<Rightarrow> nat \<Rightarrow>
     jsstring \<times> event list \<times> ai_call list" where
  "getBrowseResults read creates url' browseQuery maxRetry =
     (case browse_loop read url' maxRetry 0 of
        (Inl returned, tr) \<Rightarrow> (returned, tr, [])
      | (Inr sourceText, tr) \<Rightarrow>
          (if sourceText = [] \<or> trim sourceText = [] then (browse_error, tr, [])
           else
             (let query = (if browseQuery \<noteq> [] then browseQuery
                           else js ''Detailed summary of the page.'');
                  (output, calls) = getBrowseAnswer creates sourceText query maxRetry
              in ((case output of
                     None \<Rightarrow> browse_error
                   | Some t \<Rightarrow> if trim t \<noteq> [] then trim t else browse_error),
                  tr, calls))))"

section \<open>The tool handlers\<close>

text \<open>
  \<open>Promise.all\<close> keeps one slot per input promise. A promise that settles stores its
  value in the slot of its own index; the combined promise resolves with the slots, in index
  order, once all are filled. \<open>order\<close> lists the indices in the order in which the promises
  settle; \<open>None\<close> is a combined promise that is still pending.
\<close>

fun settle :: "'a list \<Rightarrow> nat list \<Rightarrow> 'a option list \<Rightarrow> 'a option list" where
  "settle vals [] slots = slots"
| "settle vals (i # order) slots = settle vals order (slots[i := Some (vals ! i)])"

definition promise_all :: "nat list \<Rightarrow> 'a list \<Rightarrow> 'a list option" where
  "promise_all order vals =
     (let slots = settle vals order (replicate (length vals) None)
      in if list_all (\<lambda>v. v \<noteq> None) slots then Some (map the slots) else None)"

definition search_block :: "jsstring \<Rightarrow> jsstring \<Rightarrow> jsstring" where
  "search_block q res =
     js ''--- search result for ['' @ q @ js ''] ---'' @ nl @ res @ nl @
     js ''--- end of search result ---''"

definition browse_block :: "jsstring \<Rightarrow> jsstring \<Rightarrow> jsstring" where
  "browse_block url' res =
     js ''--- answer based on ['' @ url' @ js ''] ---'' @ nl @ res @ nl @
     js ''--- end of answer ---''"

text \<open>
  The handlers yield the \<open>text\<close> of their single content item. Call \<open>i\<close> of a fan-out
  meets its own worlds; \<open>order\<close> is the order in which the calls complete.
\<close>

definition search_handler :: "jsstring \<Rightarrow> search_world \<Rightarrow> jsstring \<Rightarrow> jsstring" where
  "search_handler serperApiKey world query = fst (getSearchResults serperApiKey world query 3)"

definition browse_handler ::
  "read_world \<Rightarrow> (nat \<Rightarrow> completion_world) \<Rightarrow> jsstring \<Rightarrow> jsstring option \<Rightarrow> jsstring" where
  "browse_handler read creates url' query =
     fst (getBrowseResults read creates url'
            (case query of Some (c # cs) \<Rightarrow> c # cs | _ \<Rightarrow> []) 3)"

definition multi_search_handler ::
  "jsstring \<Rightarrow> (nat \<Rightarrow> search_world) \<Rightarrow> nat list \<Rightarrow> jsstring list \<Rightarrow> jsstring option" where
  "multi_search_handler serperApiKey worlds order queries =
     (let promises = map (\<lambda>(i, q). search_block q (fst (getSearchResults serperApiKey (worlds i) q 3)))
                         (enumerate 0 queries)
      in case promise_all order promises of
           None \<Rightarrow> None
         | Some results \<Rightarrow> Some (js_join (nl @ nl) results))"

definition multi_browse_handler ::
  "(nat \<Rightarrow> read_world) \<Rightarrow> (nat \<Rightarrow> nat \<Rightarrow> completion_world) \<Rightarrow> nat list \<Rightarrow>
     jsstring list \<Rightarrow> jsstring option \<Rightarrow> jsstring option" where
  "multi_browse_handler reads creates order urls query =
     (let promises = map (\<lambda>(i, url').
                            browse_block url'
                              (fst (getBrowseResults (reads i) (creates i) url'
                                      (case query of Some (c # cs) \<Rightarrow> c # cs | _ \<Rightarrow> []) 3)))
                         (enumerate 0 urls)
      in case promise_all order promises of
           None \<Rightarrow> None
         | Some results \<Rightarrow> Some (js_join (nl @ nl) results))"

section \<open>The submission endpoint of the bridge\<close>

text \<open>
  A parsed JSON value. Numbers are kept as integers: the dispatcher only copies them (as a
  request id) and never computes with them.
\<close>

datatype json = JNull | JBool bool | JNum int | JStr jsstring | JArr "json list"
  | JObj "(jsstring \<times> json) list"

text \<open>What is thrown: a TypeError, a SyntaxError, or an \<open>Error\<close> with its message.\<close>

datatype js_error = TypeError | SyntaxError | Error jsstring

text \<open>
  Reading a property \<open>v.key\<close> where \<open>v\<close> came out of \<open>JSON.parse\<close>; \<open>None\<close> is
  \<open>undefined\<close>. Reading from \<open>undefined\<close> or \<open>null\<close> throws a TypeError. An object has the
  keys of its text, the last one winning among duplicates. The keys read by the dispatcher
  (\<open>method\<close>, \<open>id\<close>, \<open>params\<close>, \<open>name\<close>, \<open>arguments\<close>) exist on no primitive, array or
  prototype, so every other value gives \<open>undefined\<close>.
\<close>

fun get_prop :: "json option \<Rightarrow> jsstring \<Rightarrow> js_error + json option" where
  "get_prop None key = Inl TypeError"
| "get_prop (Some JNull) key = Inl TypeError"
| "get_prop (Some (JObj kvs)) key = Inr (map_of (rev kvs) key)"
| "get_prop (Some v) key = Inr None"

datatype handler = Search | Browse | MultiSearch | MultiBrowse

record tool =
  tool_description :: jsstring
  tool_handler :: handler

text \<open>
  What is enqueued on a session's stream: a raw text, or a \<open>message\<close> event whose data is the
  \<open>JSON.stringify\<close> of the given value (a key whose value is \<open>undefined\<close> is left out of
  that text, so it is left out of the value here).
\<close>

datatype frame = Raw jsstring | Message json

text \<open>A call of a registered tool that was started and has not written its answer yet.\<close>

record task =
  task_session :: jsstring
  task_id :: "json option"
  task_handler :: handler
  task_arguments :: "json option"

text \<open>
  The Durable Object: the frames enqueued on the controller of every registered session,
  the names of the tools held by its \<open>McpServer\<close> (the field \<open>server\<close>), the static tool
  registry (a \<open>Map\<close>, in insertion order) and the running tool calls.
\<close>

record server =
  sessions :: "jsstring \<rightharpoonup> frame list"
  registeredTools :: "jsstring list"
  toolsRegistry :: "(jsstring \<times> tool) list"
  tasks :: "task list"

text \<open>\<open>Map.prototype.set\<close>: an existing key keeps its place, a new key goes to the end.\<close>

fun map_set :: "('k \<times> 'v) list \<Rightarrow> 'k \<Rightarrow> 'v \<Rightarrow> ('k \<times> 'v) list" where
  "map_set [] k v = [(k, v)]"
| "map_set ((k', v') # kvs) k v = (if k' = k then (k, v) # kvs else (k', v') # map_set kvs k v)"

text \<open>
  \<open>registerTool\<close> first calls \<open>this.server.tool(name, schema, handler)\<close>. \<open>McpServer.tool\<close>
  belongs to the SDK, outside the repository: it throws
  \<open>Error("Tool <name> is already registered")\<close> when the server holds the name already, and
  records the name otherwise. Only then is the static registry set. The result is the
  exception thrown, if any, and the state.
\<close>

definition registerTool ::
  "jsstring \<Rightarrow> jsstring \<Rightarrow> handler \<Rightarrow> server \<Rightarrow> js_error option \<times> server" where
  "registerTool name description' h srv =
     (if name \<in> set (registeredTools srv) then
        (Some (Error (js ''Tool '' @ name @ js '' is already registered'')), srv)
      else
        (None,
         srv\<lparr>registeredTools := registeredTools srv @ [name],
             toolsRegistry :=
               map_set (toolsRegistry srv) name
                 \<lparr>tool_description = description', tool_handler = h\<rparr>\<rparr>))"

text \<open>One statement after another: an exception ends the sequence and keeps the state.\<close>

definition and_then ::
  "js_error option \<times> server \<Rightarrow> (server \<Rightarrow> js_error option \<times> server) \<Rightarrow>
     js_error option \<times> server" where
  "and_then r f = (case r of (Some e, srv) \<Rightarrow> (Some e, srv) | (None, srv) \<Rightarrow> f srv)"

text \<open>
  \<open>init\<close> registers the four tools, in the order of the source. (Before that it builds the
  service, which keeps no state of the object.)
\<close>

definition init :: "server \<Rightarrow> js_error option \<times> server" where
  "init srv =
     and_then (and_then (and_then
       (registerTool (js ''search'')
          (js ''Search Google for a query and return brief snippets.'') Search srv)
       (registerTool (js ''browse'')
          (js ''Browse a webpage and answer a specific query based on its content.'') Browse))
       (registerTool (js ''multi_search'') (js ''Perform multiple searches in parallel.'')
          MultiSearch))
       (registerTool (js ''multi_browse'')
          (js ''Browse multiple webpages in parallel and answer a query.'') MultiBrowse)"

definition string_property :: "string \<Rightarrow> json" where
  "string_property d = JObj [(js ''type'', JStr (js ''string'')), (js ''description'', JStr (js d))]"

definition array_property :: "string \<Rightarrow> json" where
  "array_property d =
     JObj [(js ''type'', JStr (js ''array'')),
           (js ''items'', JObj [(js ''type'', JStr (js ''string''))]),
           (js ''description'', JStr (js d))]"

text \<open>The entry of \<open>tools/list\<close> for one registered tool.\<close>

definition tool_entry :: "jsstring \<times> tool \<Rightarrow> json" where
  "tool_entry = (\<lambda>(name, t).
     (let (properties, required) =
            (if name = js ''search'' then
               ([(js ''query'', string_property ''Search query'')], [js ''query''])
             else if name = js ''browse'' then
               ([(js ''url'', string_property ''The URL to browse''),
                 (js ''query'', string_property ''Specific question or summary request'')],
                [js ''url''])
             else if name = js ''multi_search'' then
               ([(js ''queries'', array_property ''A list of search queries'')], [js ''queries''])
             else if name = js ''multi_browse'' then
               ([(js ''urls'', array_property ''A list of URLs to browse''),
                 (js ''query'', string_property ''Specific question or summary request'')],
                [js ''urls''])
             else ([], []))
      in JObj [(js ''name'', JStr name),
               (js ''description'', JStr (tool_description t)),
               (js ''inputSchema'',
                  JObj [(js ''type'', JStr (js ''object'')),
                        (js ''properties'', JObj properties),
                        (js ''required'', JArr (map JStr required))])]))"

text \<open>The JSON-RPC envelopes; the \<open>id\<close> key is present exactly when the request had one.\<close>

definition id_field :: "json option \<Rightarrow> (jsstring \<times> json) list" where
  "id_field i = (case i of None \<Rightarrow> [] | Some v \<Rightarrow> [(js ''id'', v)])"

definition rpc_result :: "json option \<Rightarrow> json \<Rightarrow> json" where
  "rpc_result i r = JObj ([(js ''jsonrpc'', JStr (js ''2.0''))] @ id_field i @ [(js ''result'', r)])"

definition rpc_error :: "json option \<Rightarrow> int \<Rightarrow> jsstring \<Rightarrow> json" where
  "rpc_error i code message =
     JObj ([(js ''jsonrpc'', JStr (js ''2.0''))] @ id_field i @
           [(js ''error'', JObj [(js ''code'', JNum code), (js ''message'', JStr message)])])"

text \<open>
  \<open>controller.enqueue\<close> on the controller that was looked up under \<open>sid\<close>. The write
  is taken to succeed: a session leaves the registry when its stream is cancelled.
\<close>

definition enqueue :: "jsstring \<Rightarrow> frame \<Rightarrow> server \<Rightarrow> server" where
  "enqueue sid f srv =
     srv\<lparr>sessions := (sessions srv)(sid := map_option (\<lambda>fs. fs @ [f]) (sessions srv sid))\<rparr>"

record http_request =
  origin :: jsstring
  pathname :: jsstring
  http_method :: jsstring
  sessionId :: "jsstring option"
  body :: "json option"

text \<open>
  A plain response with its status and text, the event stream of a session, or the answer
  of the inherited \<open>fetch\<close> of the agent framework.
\<close>

datatype response = Response nat jsstring | EventStream jsstring | SuperFetch

text \<open>
  Lines 155 to 228 of \<open>fetch\<close>: what the branch for a POST to \<open>/mcp/messages\<close> does once
  \<open>init\<close> has returned, for the session \<open>sid\<close> whose controller was looked up. \<open>payload\<close>
  is the value of \<open>request.json()\<close> (\<open>None\<close> when the text is not JSON and the call throws).
\<close>

definition dispatch :: "server \<Rightarrow> jsstring \<Rightarrow> json option \<Rightarrow> (js_error + response) \<times> server" where
  "dispatch srv sid payload =
    (case payload of
      None \<Rightarrow> (Inl SyntaxError, srv)
    | Some body' \<Rightarrow>
        (case get_prop (Some body') (js ''method'') of
           Inl e \<Rightarrow> (Inl e, srv)
         | Inr method \<Rightarrow>
             (if method = Some (JStr (js ''tools/list'')) then
                (case get_prop (Some body') (js ''id'') of
                   Inl e \<Rightarrow> (Inl e, srv)
                 | Inr i \<Rightarrow>
                     (let availableTools = map tool_entry (toolsRegistry srv);
                          bridgeResponse =
                            rpc_result i (JObj [(js ''tools'', JArr availableTools)])
                      in (Inr (Response 202 (js ''Accepted'')),
                          enqueue sid (Message bridgeResponse) srv)))
              else if method = Some (JStr (js ''tools/call'')) then
                (case get_prop (Some body') (js ''params'') of
                   Inl e \<Rightarrow> (Inl e, srv)
                 | Inr params \<Rightarrow>
                     (case get_prop params (js ''name'') of
                        Inl e \<Rightarrow> (Inl e, srv)
                      | Inr name \<Rightarrow>
                          (case (case name of
                                   Some (JStr n) \<Rightarrow> map_of (toolsRegistry srv) n
                                 | _ \<Rightarrow> None) of
                             None \<Rightarrow>
                               (case get_prop (Some body') (js ''id'') of
                                  Inl e \<Rightarrow> (Inl e, srv)
                                | Inr i \<Rightarrow>
                                    (Inr (Response 202 (js ''Accepted'')),
                                     enqueue sid
                                       (Message (rpc_error i (- 32601) (js ''Tool not found'')))
                                       srv))
                           | Some t \<Rightarrow>
                               (case get_prop params (js ''arguments'') of
                                  Inl e \<Rightarrow> (Inl e, srv)
                                | Inr arguments \<Rightarrow>
                                    (case get_prop (Some body') (js ''id'') of
                                       Inl e \<Rightarrow> (Inl e, srv)
                                     | Inr i \<Rightarrow>
                                         (Inr (Response 202 (js ''Accepted'')),
                                          srv\<lparr>tasks := tasks srv @
                                                [\<lparr>task_session = sid, task_id = i,
                                                  task_handler = tool_handler t,
                                                  task_arguments = arguments\<rparr>]\<rparr>))))))
              else if method = Some (JStr (js ''notifications/initialized''))
                      \<or> method = Some (JStr (js ''initialize'')) then
                (if method = Some (JStr (js ''initialize'')) then
                   (case get_prop (Some body') (js ''id'') of
                      Inl e \<Rightarrow> (Inl e, srv)
                    | Inr i \<Rightarrow>
                        (Inr (Response 202 (js ''Accepted'')),
                         enqueue sid
                           (Message (rpc_result i
                              (JObj [(js ''protocolVersion'', JStr (js ''2024-11-05'')),
                                     (js ''capabilities'', JObj []),
                                     (js ''serverInfo'',
                                        JObj [(js ''name'', JStr (js ''MiniMax Search MCP Server'')),
                                              (js ''version'', JStr (js ''1.0.0''))])])))
                           srv))
                 else (Inr (Response 202 (js ''Accepted'')), srv))
              else (Inr (Response 501 (js ''Method not supported in bridge mode'')), srv))))"

text \<open>
  The branch of \<open>fetch\<close> for a POST to \<open>/mcp/messages\<close>. \<open>sessionId request\<close> is the value
  of \<open>url.searchParams.get("sessionId")\<close> (\<open>None\<close> for \<open>null\<close>). The result is the response
  or the exception that leaves \<open>fetch\<close>, together with the object's state.
\<close>

definition fetch_messages :: "server \<Rightarrow> http_request \<Rightarrow> (js_error + response) \<times> server" where
  "fetch_messages srv request =
     (case sessionId request of
        None \<Rightarrow> (Inr (Response 400 (js ''Missing sessionId'')), srv)
      | Some [] \<Rightarrow> (Inr (Response 400 (js ''Missing sessionId'')), srv)
      | Some sid \<Rightarrow>
          (case sessions srv sid of
             None \<Rightarrow> (Inr (Response 404 (js ''Session not found or expired'')), srv)
           | Some controller \<Rightarrow>
               (case init srv of
                  (Some e, srv) \<Rightarrow> (Inl e, srv)
                | (None, srv) \<Rightarrow> dispatch srv sid (body request))))"

text \<open>
  The end of a running tool call: the handler's result, or the message of the exception it
  threw, is written to the stream of the session that started it.
\<close>

definition finish_task :: "task \<Rightarrow> jsstring + json \<Rightarrow> server \<Rightarrow> server" where
  "finish_task t outcome srv =
     (case outcome of
        Inr result \<Rightarrow> enqueue (task_session t) (Message (rpc_result (task_id t) result)) srv
      | Inl message \<Rightarrow> enqueue (task_session t) (Message (rpc_error (task_id t) (- 32000) message)) srv)"

text \<open>
  \<open>fetch\<close> of the Durable Object. \<open>uuid\<close> is what \<open>crypto.randomUUID()\<close> returns. Opening
  the stream calls \<open>init\<close>, registers the session and enqueues the \<open>endpoint\<close> event at
  once; the keep-alive timer, which runs in real time, is left out.
\<close>

definition fetch :: "server \<Rightarrow> jsstring \<Rightarrow> http_request \<Rightarrow> (js_error + response) \<times> server" where
  "fetch srv uuid request =
     (if pathname request = js ''/mcp/sse'' then
        (case init srv of
           (Some e, srv) \<Rightarrow> (Inl e, srv)
         | (None, srv) \<Rightarrow>
             (Inr (EventStream uuid),
              srv\<lparr>sessions := (sessions srv)(uuid \<mapsto>
                    [Raw (js ''event: endpoint'' @ nl),
                     Raw (js ''data: '' @ origin request @ js ''/mcp/messages?sessionId='' @ uuid
                          @ nl @ nl)])\<rparr>))
      else if pathname request = js ''/mcp/messages'' \<and> http_method request = js ''POST'' then
        fetch_messages srv request
      else (Inr SuperFetch, srv))"

section \<open>Example inputs\<close>

text \<open>A text of 760001 code units, one more than the character budget.\<close>

definition long_text :: jsstring where
  "long_text = replicate 760001 97"

text \<open>A completion service that answers every request with a \<open>null\<close> content.\<close>

definition null_content :: "nat \<Rightarrow> completion_world" where
  "null_content i query k = Content None"

text \<open>A completion service that answers every request with \<open>ok\<close>.\<close>

definition answers_ok :: "nat \<Rightarrow> completion_world" where
  "answers_ok i query k = Content (Some (js ''ok''))"

text \<open>
  A completion service whose first attempt throws and whose second attempt answers with a
  reasoning block in front of the answer.
\<close>

definition flaky :: completion_world where
  "flaky query k =
     (if k = 0 then Throws (js ''503'') else Content (Some (js ''<think>hmm</think> ok '')))"

text \<open>
  A page reader whose first attempt returns nothing and whose later attempts are refused
  with a \<open>Client Error\<close>.
\<close>

definition refused :: read_world where
  "refused url' k =
     (if k = 0 then ReadText [] else ReadThrows (js ''403 Client Error: Forbidden''))"

text \<open>A search provider that finds nothing, whatever the query.\<close>

definition no_results :: search_world where
  "no_results query k = Organic []"

text \<open>
  A fresh Durable Object on which one client has opened the stream of session \<open>s1\<close>,
  and submissions to that session.
\<close>

definition open_request :: http_request where
  "open_request =
     \<lparr>origin = js ''https://mcp.example'', pathname = js ''/mcp/sse'', http_method = js ''GET'',
      sessionId = None, body = None\<rparr>"

definition one_session :: server where
  "one_session =
     snd (fetch \<lparr>sessions = Map.empty, registeredTools = [], toolsRegistry = [], tasks = []\<rparr>
            (js ''s1'') open_request)"

definition submission :: "json option \<Rightarrow> http_request" where
  "submission b =
     \<lparr>origin = js ''https://mcp.example'', pathname = js ''/mcp/messages'',
      http_method = js ''POST'', sessionId = Some (js ''s1''), body = b\<rparr>"

definition call_unknown :: json where
  "call_unknown =
     JObj [(js ''jsonrpc'', JStr (js ''2.0'')), (js ''id'', JNum 7),
           (js ''method'', JStr (js ''tools/call'')),
           (js ''params'', JObj [(js ''name'', JStr (js ''translate''))])]"

definition call_without_params :: json where
  "call_without_params =
     JObj [(js ''jsonrpc'', JStr (js ''2.0'')), (js ''id'', JNum 8),
           (js ''method'', JStr (js ''tools/call''))]"





section \<open>Properties of the helpers\<close>

lemma math_ceil_div_real:
  assumes "0 < b"
  shows "int (math_ceil_div a b) = \<lceil>real a / real b\<rceil>"
proof (cases "a mod b = 0")
  case True
  then have "real a = real b * real (a div b)"
    by (metis mod_0_imp_dvd dvd_mult_div_cancel of_nat_mult)
  then have "real a / real b = real (a div b)"
    using assms by simp
  with True show ?thesis
    by (simp add: math_ceil_div_def)
next
  case False
  have a: "real a = real b * real (a div b) + real (a mod b)"
    by (metis mult_div_mod_eq of_nat_add of_nat_mult)
  have r: "0 < real (a mod b)" "real (a mod b) < real b"
    using False assms by simp_all
  have "real a / real b = real (a div b) + real (a mod b) / real b"
    using assms by (simp add: a field_simps)
  moreover have "0 < real (a mod b) / real b" "real (a mod b) / real b < 1"
    using r assms by simp_all
  ultimately have "real (a div b) < real a / real b" "real a / real b \<le> real (a div b) + 1"
    by linarith+
  then have "\<lceil>real a / real b\<rceil> = int (a div b) + 1"
    by (intro ceiling_unique) simp_all
  with False show ?thesis
    by (simp add: math_ceil_div_def)
qed

lemma math_ceil_div_upper: "0 < b \<Longrightarrow> a \<le> math_ceil_div a b * b"
proof -
  assume b: "0 < b"
  have e: "a div b * b + a mod b = a" by (rule div_mult_mod_eq)
  have m: "a mod b < b" using b by simp
  show ?thesis
  proof (cases "a mod b = 0")
    case True
    with e show ?thesis by (simp add: math_ceil_div_def)
  next
    case False
    have "a \<le> a div b * b + b" using e m by linarith
    with False show ?thesis by (simp add: math_ceil_div_def)
  qed
qed

lemma math_ceil_div_lower:
  assumes "0 < b" and "0 < a"
  shows "(math_ceil_div a b - 1) * b < a"
proof -
  have e: "a div b * b + a mod b = a" by (rule div_mult_mod_eq)
  show ?thesis
  proof (cases "a mod b = 0")
    case True
    with e have e': "a div b * b = a" by simp
    then have "0 < a div b" using assms by (cases "a div b") simp_all
    then have "(a div b - 1) * b + b = a div b * b"
      by (cases "a div b") simp_all
    with e' assms have "(a div b - 1) * b < a" by linarith
    with True show ?thesis by (simp add: math_ceil_div_def)
  next
    case False
    then have "a div b * b < a" using e by linarith
    with False show ?thesis by (simp add: math_ceil_div_def)
  qed
qed

lemma math_ceil_div_le:
  assumes "0 < b" and "a \<le> k * b"
  shows "math_ceil_div a b \<le> k"
proof (rule ccontr)
  assume "\<not> math_ceil_div a b \<le> k"
  then have "k \<le> math_ceil_div a b - 1" by simp
  then have le: "k * b \<le> (math_ceil_div a b - 1) * b" by (rule mult_le_mono1)
  have "0 < a" using \<open>\<not> math_ceil_div a b \<le> k\<close>
    by (cases "a = 0") (simp_all add: math_ceil_div_def)
  then have "(math_ceil_div a b - 1) * b < a"
    using assms(1) by (intro math_ceil_div_lower)
  with le assms(2) show False by linarith
qed

lemma math_ceil_div_ge:
  assumes "0 < b" and "k * b < a"
  shows "k < math_ceil_div a b"
proof (rule ccontr)
  assume "\<not> k < math_ceil_div a b"
  then have "math_ceil_div a b \<le> k" by simp
  then have "math_ceil_div a b * b \<le> k * b" by (rule mult_le_mono1)
  moreover have "a \<le> math_ceil_div a b * b" using assms(1) by (rule math_ceil_div_upper)
  ultimately show False using assms(2) by linarith
qed

lemma math_ceil_div_unique:
  assumes "0 < b" and "a \<le> k * b" and "(k - 1) * b < a"
  shows "math_ceil_div a b = k"
proof -
  have "math_ceil_div a b \<le> k" using assms(1,2) by (rule math_ceil_div_le)
  moreover have "k - 1 < math_ceil_div a b" using assms(1,3) by (rule math_ceil_div_ge)
  ultimately show ?thesis by simp
qed

lemma even_split:
  assumes C: "0 < C" and L: "C < L"
  shows "math_ceil_div L (math_ceil_div L (math_ceil_div L C)) = math_ceil_div L C"
proof -
  define n where "n = math_ceil_div L C"
  define c where "c = math_ceil_div L n"
  have L0: "0 < L" using assms by simp
  have n_up: "L \<le> n * C" unfolding n_def using C by (rule math_ceil_div_upper)
  have n_lo: "(n - 1) * C < L" unfolding n_def using C L0 by (rule math_ceil_div_lower)
  have n0: "0 < n" using n_up L0 by (cases n) simp_all
  have c_up: "L \<le> c * n" unfolding c_def using n0 by (rule math_ceil_div_upper)
  have c0: "0 < c" using c_up L0 by (cases c) simp_all
  have "L \<le> C * n" using n_up by (simp add: mult.commute)
  then have "c \<le> C" unfolding c_def using n0 by (intro math_ceil_div_le)
  then have "(n - 1) * c \<le> (n - 1) * C" by (rule mult_le_mono2)
  with n_lo have "(n - 1) * c < L" by linarith
  moreover have "L \<le> n * c" using c_up by (simp add: mult.commute)
  ultimately have "math_ceil_div L c = n" using c0 by (intro math_ceil_div_unique)
  then show ?thesis unfolding c_def n_def .
qed

lemma chunk_loop_eq:
  "chunk_loop s q n c i acc =
     acc @ map (\<lambda>k. chunk_query (js_slice s (k * c) ((k + 1) * c + 1024)) q) [i..<n]"
proof (induction s q n c i acc rule: chunk_loop.induct)
  case (1 s q n c i acc)
  show ?case
  proof (cases "i < n")
    case True
    then have "[i..<n] = i # [Suc i..<n]" by (simp add: upt_conv_Cons)
    with True 1 show ?thesis
      by (subst chunk_loop.simps) (simp add: Let_def)
  next
    case False
    then show ?thesis by (subst chunk_loop.simps) simp
  qed
qed

lemma browse_calls:
  assumes "charLimit < length s"
  shows "length (snd (getBrowseAnswer creates s q m)) = math_ceil_div (length s) charLimit"
  using assms by (simp add: getBrowseAnswer_def Let_def chunk_loop_eq)


section \<open>Claims about the answerer pipeline\<close>

text \<open>
  C1. For every source text whose length \<open>L\<close> is greater than the character budget
  \<open>C = 190000 * 4\<close>, \<open>getBrowseAnswer\<close> starts exactly
  \<open>ceil(L / ceil(L / ceil(L / C)))\<close> chunk completion calls. (The code starts
  \<open>numSplit = ceil(L / C)\<close> calls; the two numbers are equal for every such length.)
\<close>

theorem chunk_call_count:
  assumes "190000 * 4 < length sourceText"
  shows "int (length (snd (getBrowseAnswer creates sourceText browseQuery maxRetry))) =
           \<lceil>real (length sourceText) /
              of_int \<lceil>real (length sourceText) /
                        of_int \<lceil>real (length sourceText) / real (190000 * 4)\<rceil>\<rceil>\<rceil>"
proof -
  define L where "L = length sourceText"
  define n where "n = math_ceil_div L charLimit"
  define c where "c = math_ceil_div L n"
  have C: "charLimit = 190000 * 4" by (simp add: charLimit_def tokenLimit_def)
  have big: "charLimit < L" and C0: "0 < charLimit" using assms by (simp_all add: C L_def)
  have L0: "0 < L" using big by simp
  have n0: "0 < n" unfolding n_def using C0 L0 by (intro math_ceil_div_ge) simp_all
  have c0: "0 < c" unfolding c_def using n0 L0 by (intro math_ceil_div_ge) simp_all
  have "int (length (snd (getBrowseAnswer creates sourceText browseQuery maxRetry))) = int n"
    using big by (simp add: browse_calls n_def L_def)
  also have "n = math_ceil_div L c"
    unfolding c_def n_def using C0 big by (rule even_split [symmetric])
  also have "int (math_ceil_div L c) = \<lceil>real L / real c\<rceil>"
    using c0 by (rule math_ceil_div_real)
  also have "real c = of_int (int c)" by simp
  also have "int c = \<lceil>real L / real n\<rceil>"
    unfolding c_def using n0 by (rule math_ceil_div_real)
  also have "real n = of_int (int n)" by simp
  also have "int n = \<lceil>real L / real charLimit\<rceil>"
    unfolding n_def using C0 by (rule math_ceil_div_real)
  finally show ?thesis unfolding L_def C .
qed

theorem chunk_call_count_witness:
  "190000 * 4 < length (replicate 760001 (97 :: jschar)) \<and>
   length (snd (getBrowseAnswer (\<lambda>i q k. Throws []) (replicate 760001 97) (js ''why'') 2)) = 2"
  using chunk_call_count [of "replicate 760001 97" "\<lambda>i q k. Throws []" "js ''why''" 2]
  by simp

lemma js_slice_take_drop: "a \<le> b \<Longrightarrow> js_slice s a b = take (b - a) (drop a s)"
  by (cases "a \<le> length s") (auto simp: js_slice_def Let_def min_def)

lemma split_bounds:
  assumes C: "0 < C" and L: "C < L"
  defines "n \<equiv> math_ceil_div L C"
  defines "c \<equiv> math_ceil_div L n"
  shows "(n - 1) * c < L" and "L \<le> n * c" and "0 < n" and "0 < c"
proof -
  have L0: "0 < L" using assms by simp
  have n_up: "L \<le> n * C" unfolding n_def using C by (rule math_ceil_div_upper)
  have n_lo: "(n - 1) * C < L" unfolding n_def using C L0 by (rule math_ceil_div_lower)
  show n0: "0 < n" using n_up L0 by (cases n) simp_all
  have c_up: "L \<le> c * n" unfolding c_def using n0 by (rule math_ceil_div_upper)
  show "0 < c" using c_up L0 by (cases c) simp_all
  have "L \<le> C * n" using n_up by (simp add: mult.commute)
  then have "c \<le> C" unfolding c_def using n0 by (intro math_ceil_div_le)
  then have "(n - 1) * c \<le> (n - 1) * C" by (rule mult_le_mono2)
  with n_lo show "(n - 1) * c < L" by linarith
  show "L \<le> n * c" using c_up by (simp add: mult.commute)
qed

lemma browse_call_nth:
  assumes "charLimit < length s" and "i < math_ceil_div (length s) charLimit"
  shows "snd (getBrowseAnswer creates s q m) ! i =
     (let c = math_ceil_div (length s) (math_ceil_div (length s) charLimit);
          query = chunk_query (js_slice s (i * c) ((i + 1) * c + 1024)) q
      in (query, snd (getAiResponse (creates i) query m)))"
  using assms
  by (simp add: getBrowseAnswer_def Let_def chunk_loop_eq nth_enumerate_eq split_beta)

text \<open>
  C2. For a source text longer than the character budget, with
  \<open>numSplit = ceil(length / budget)\<close> and \<open>chunkLen = ceil(length / numSplit)\<close>, the chunk
  in the prompt of call \<open>i\<close> is the slice \<open>[i * chunkLen, (i + 1) * chunkLen + 1024)\<close> of the
  text, clipped at the end of the text: it starts inside the text at \<open>i * chunkLen\<close>, holds
  the code units of the text from there on, and stops at \<open>(i + 1) * chunkLen + 1024\<close> or at
  the end of the text, whichever comes first; the last chunk ends with the text.
\<close>

theorem chunk_contents:
  assumes "charLimit < length sourceText"
    and "numSplit = math_ceil_div (length sourceText) charLimit"
    and "chunkLen = math_ceil_div (length sourceText) numSplit"
    and "i < numSplit"
    and "chunk = take (chunkLen + 1024) (drop (i * chunkLen) sourceText)"
  shows "snd (getBrowseAnswer creates sourceText browseQuery maxRetry) ! i =
           (chunk_query chunk browseQuery,
            snd (getAiResponse (creates i) (chunk_query chunk browseQuery) maxRetry))
       \<and> length chunk = min (length sourceText) ((i + 1) * chunkLen + 1024) - i * chunkLen
       \<and> (\<forall>k < length chunk. chunk ! k = sourceText ! (i * chunkLen + k))
       \<and> chunk \<noteq> []
       \<and> (i = numSplit - 1 \<longrightarrow> i * chunkLen + length chunk = length sourceText)"
proof -
  have C0: "0 < charLimit" by (simp add: charLimit_def tokenLimit_def)
  note b = split_bounds [OF C0 assms(1), folded assms(2), folded assms(3)]
  have "i * chunkLen \<le> (numSplit - 1) * chunkLen"
    using assms(4) by (intro mult_le_mono1) simp
  with b(1) have start: "i * chunkLen < length sourceText" by linarith
  have sl: "js_slice sourceText (i * chunkLen) ((i + 1) * chunkLen + 1024) = chunk"
    unfolding assms(5) by (subst js_slice_take_drop) simp_all
  have call: "snd (getBrowseAnswer creates sourceText browseQuery maxRetry) ! i =
           (chunk_query chunk browseQuery,
            snd (getAiResponse (creates i) (chunk_query chunk browseQuery) maxRetry))"
    using browse_call_nth [of sourceText i creates browseQuery maxRetry] assms(1,4) sl
    by (simp add: Let_def assms(2,3))
  define a where "a = i * chunkLen"
  have len: "length chunk = min (length sourceText - a) (chunkLen + 1024)"
    unfolding assms(5) a_def by simp
  also have "\<dots> = min (length sourceText) (a + chunkLen + 1024) - a"
    using start unfolding a_def [symmetric] by linarith
  finally have len': "length chunk = min (length sourceText) ((i + 1) * chunkLen + 1024) - i * chunkLen"
    by (simp add: a_def algebra_simps)
  have nth: "\<forall>k < length chunk. chunk ! k = sourceText ! (i * chunkLen + k)"
    unfolding assms(5) using start by simp
  have ne: "chunk \<noteq> []"
    unfolding assms(5) using start b(4) by simp
  have last: "i * chunkLen + length chunk = length sourceText" if "i = numSplit - 1"
  proof -
    have "length sourceText \<le> (numSplit - 1) * chunkLen + chunkLen"
      using b(2,3) by (cases numSplit) (simp_all add: algebra_simps)
    then have "length sourceText - a \<le> chunkLen + 1024"
      using that by (simp add: a_def)
    with len start show ?thesis unfolding a_def [symmetric] by linarith
  qed
  from call len' nth ne last show ?thesis by blast
qed

theorem chunk_contents_witness:
  "charLimit < length (replicate 760001 (97 :: jschar))
   \<and> 2 = math_ceil_div (length (replicate 760001 (97 :: jschar))) charLimit
   \<and> 380001 = math_ceil_div (length (replicate 760001 (97 :: jschar))) 2
   \<and> (1 :: nat) < 2
   \<and> replicate 380000 (97 :: jschar) = take (380001 + 1024) (drop (1 * 380001) (replicate 760001 97))
   \<and> fst (snd (getBrowseAnswer (\<lambda>i q k. Throws []) (replicate 760001 97) (js ''why'') 2) ! 1)
       = chunk_query (replicate 380000 97) (js ''why'')
   \<and> length (replicate 380000 (97 :: jschar)) = 760001 - 380001"
proof -
  have h1: "charLimit < length (replicate 760001 (97 :: jschar))"
    by (simp add: charLimit_def tokenLimit_def)
  have h2: "2 = math_ceil_div (length (replicate 760001 (97 :: jschar))) charLimit"
    by (simp add: charLimit_def tokenLimit_def math_ceil_div_def)
  have h3: "380001 = math_ceil_div (length (replicate 760001 (97 :: jschar))) 2"
    by (simp add: math_ceil_div_def)
  have h4: "(1 :: nat) < 2" by simp
  have h5: "replicate 380000 (97 :: jschar)
              = take (380001 + 1024) (drop (1 * 380001) (replicate 760001 97))"
    by simp
  from chunk_contents [OF h1 h2 h3 h4 h5, of "\<lambda>i q k. Throws []" "js ''why''" 2] h1 h2 h3 h4 h5
  show ?thesis by simp
qed

lemma combine_loop_eq:
  "combine_loop results i combined =
     (if \<exists>r \<in> set results. r = None \<or> r = Some [] then None
      else Some (combined @
             concat (map (\<lambda>(k, r). case r of None \<Rightarrow> [] | Some t \<Rightarrow> result_part (k + 1) t)
                         (enumerate i results))))"
  by (induction results arbitrary: i combined) (auto split: option.splits)

lemma browse_answer_combine:
  assumes "charLimit < length s"
  shows "fst (getBrowseAnswer creates s q m) =
     combine_loop
       (map (\<lambda>(i, call). fst (getAiResponse (creates i) (fst call) m))
            (enumerate 0 (snd (getBrowseAnswer creates s q m))))
       0 split_note"
proof -
  have "map (\<lambda>(i, call). fst (getAiResponse (creates i) (fst call) m))
          (enumerate 0 (map (\<lambda>(query, r, tr). (query, tr))
             (map (\<lambda>(i, query). (query, getAiResponse (creates i) query m)) (enumerate 0 ps))))
        = map (\<lambda>(query, r, tr). r)
             (map (\<lambda>(i, query). (query, getAiResponse (creates i) query m)) (enumerate 0 ps))"
    for ps :: "jsstring list"
    by (rule nth_equalityI) (simp_all add: nth_enumerate_eq split_beta)
  with assms show ?thesis
    by (simp add: getBrowseAnswer_def Let_def)
qed

lemma getAiResponse_first:
  assumes "create query 0 = Content content" and "0 < m"
  shows "getAiResponse create query m =
           (Some (trim (strip_think (case content of None \<Rightarrow> [] | Some t \<Rightarrow> t))), [Create query])"
  using assms by (simp add: getAiResponse_def ai_loop.simps [of create query m 0])

lemma strip_think_Nil: "strip_think [] = []"
  by (simp add: strip_think.simps)

lemma trim_Nil: "trim [] = []"
  by (simp add: trim_def)

text \<open>
  C3 (amended). In the branch for a text longer than the budget, let \<open>results\<close> be the values
  of the chunk calls in order. If some value is \<open>null\<close> or the empty string,
  \<open>getBrowseAnswer\<close> returns \<open>null\<close>, never a partial composite; otherwise it returns the
  split note followed by every chunk answer in order, answer \<open>i\<close> wrapped in the delimiters of
  part \<open>i + 1\<close>.
\<close>

theorem all_or_nothing:
  assumes "charLimit < length sourceText"
    and "results = map (\<lambda>(i, call). fst (getAiResponse (creates i) (fst call) maxRetry))
                       (enumerate 0 (snd (getBrowseAnswer creates sourceText browseQuery maxRetry)))"
  shows "fst (getBrowseAnswer creates sourceText browseQuery maxRetry) =
     (if \<exists>r \<in> set results. r = None \<or> r = Some [] then None
      else Some (split_note @
             concat (map (\<lambda>(k, r). case r of None \<Rightarrow> [] | Some t \<Rightarrow> result_part (k + 1) t)
                         (enumerate 0 results))))"
  unfolding browse_answer_combine [OF assms(1)] assms(2) by (rule combine_loop_eq)

lemma blank_result_null:
  assumes "charLimit < length sourceText"
    and "i < length (snd (getBrowseAnswer creates sourceText browseQuery maxRetry))"
    and "fst (getAiResponse (creates i)
                (fst (snd (getBrowseAnswer creates sourceText browseQuery maxRetry) ! i)) maxRetry)
           = Some []"
  shows "fst (getBrowseAnswer creates sourceText browseQuery maxRetry) = None"
proof -
  let ?calls = "snd (getBrowseAnswer creates sourceText browseQuery maxRetry)"
  let ?results = "map (\<lambda>(i, call). fst (getAiResponse (creates i) (fst call) maxRetry))
                      (enumerate 0 ?calls)"
  have "?results ! i = Some []"
    using assms(2,3) by (simp add: nth_enumerate_eq)
  moreover have "i < length ?results"
    using assms(2) by simp
  ultimately have "Some [] \<in> set ?results"
    by (metis nth_mem)
  then have bad: "\<exists>r \<in> set ?results. r = None \<or> r = Some []"
    by blast
  have "combine_loop ?results 0 split_note = None"
    unfolding combine_loop_eq using bad by (rule if_P)
  then show ?thesis
    unfolding browse_answer_combine [OF assms(1)] .
qed

text \<open>
  C10. In the branch for a text longer than the budget, a chunk call that returns the empty
  string makes the composite answer \<open>null\<close>, as a failed call does.
\<close>

theorem empty_chunk_answer:
  assumes "charLimit < length sourceText"
    and "i < length (snd (getBrowseAnswer creates sourceText browseQuery maxRetry))"
    and "fst (getAiResponse (creates i)
                (fst (snd (getBrowseAnswer creates sourceText browseQuery maxRetry) ! i)) maxRetry)
           = Some []"
  shows "fst (getBrowseAnswer creates sourceText browseQuery maxRetry) = None"
  using assms by (rule blank_result_null)

lemma long_text_calls:
  "map fst (snd (getBrowseAnswer creates long_text q m)) =
     [chunk_query (replicate 381025 97) q, chunk_query (replicate 380000 97) q]"
proof -
  have n: "math_ceil_div 760001 charLimit = 2"
    by (simp add: charLimit_def tokenLimit_def math_ceil_div_def)
  have c: "math_ceil_div 760001 2 = 380001"
    by (simp add: math_ceil_div_def)
  have u: "[0..<2] = [0, 1]"
    by (simp add: upt_conv_Cons)
  have big: "charLimit < 760001"
    by (simp add: charLimit_def tokenLimit_def)
  show ?thesis
    using big
    by (simp add: getBrowseAnswer_def long_text_def Let_def chunk_loop_eq n c u
          js_slice_def enumerate_eq_zip split_beta)
qed


text \<open>
  C3 as stated fails: both chunk calls below succeed at their first attempt (their value is the
  empty string, not \<open>null\<close>), and the composite answer is \<open>null\<close> all the same.
\<close>

theorem all_or_nothing_counterexample:
  "charLimit < length long_text
   \<and> length (snd (getBrowseAnswer null_content long_text (js ''why'') 2)) = 2
   \<and> fst (getAiResponse (null_content 0)
            (fst (snd (getBrowseAnswer null_content long_text (js ''why'') 2) ! 0)) 2) = Some []
   \<and> fst (getAiResponse (null_content 1)
            (fst (snd (getBrowseAnswer null_content long_text (js ''why'') 2) ! 1)) 2) = Some []
   \<and> fst (getBrowseAnswer null_content long_text (js ''why'') 2) = None"
proof -
  have big: "charLimit < length long_text"
    by (simp add: long_text_def charLimit_def tokenLimit_def)
  have r: "fst (getAiResponse (null_content i) p 2) = Some []" for i p
    by (simp add: getAiResponse_first [of _ _ None] null_content_def strip_think_Nil trim_Nil)
  have len: "length (snd (getBrowseAnswer null_content long_text (js ''why'') 2)) = 2"
    using arg_cong [OF long_text_calls [of null_content "js ''why''" 2], of length] by simp
  have "fst (getBrowseAnswer null_content long_text (js ''why'') 2) = None"
    using big len r by (intro blank_result_null [of _ 0]) simp_all
  with big len r show ?thesis by simp
qed

theorem empty_chunk_answer_witness:
  "charLimit < length long_text
   \<and> 0 < length (snd (getBrowseAnswer null_content long_text (js ''why'') 2))
   \<and> fst (getAiResponse (null_content 0)
            (fst (snd (getBrowseAnswer null_content long_text (js ''why'') 2) ! 0)) 2) = Some []
   \<and> fst (getBrowseAnswer null_content long_text (js ''why'') 2) = None"
proof -
  have big: "charLimit < length long_text"
    by (simp add: long_text_def charLimit_def tokenLimit_def)
  have r: "fst (getAiResponse (null_content 0) p 2) = Some []" for p
    by (simp add: getAiResponse_first [of _ _ None] null_content_def strip_think_Nil trim_Nil)
  have len: "0 < length (snd (getBrowseAnswer null_content long_text (js ''why'') 2))"
    using arg_cong [OF long_text_calls [of null_content "js ''why''" 2], of length] by simp
  from empty_chunk_answer [OF big len r] big len r show ?thesis by simp
qed


theorem all_or_nothing_witness:
  "charLimit < length long_text
   \<and> fst (getBrowseAnswer answers_ok long_text (js ''why'') 2) =
       Some (split_note @ result_part 1 (js ''ok'') @ result_part 2 (js ''ok''))"
proof -
  have big: "charLimit < length long_text"
    by (simp add: long_text_def charLimit_def tokenLimit_def)
  have s: "strip_think (js ''ok'') = js ''ok''"
    by (simp add: strip_think.simps js_def think_open_def)
  have t: "trim (js ''ok'') = js ''ok''"
    by (simp add: trim_def js_def is_space_def)
  have r: "fst (getAiResponse (answers_ok i) p 2) = Some (js ''ok'')" for i p
    by (simp add: getAiResponse_first [of _ _ "Some (js ''ok'')"] answers_ok_def s t)
  obtain c0 c1 where calls: "snd (getBrowseAnswer answers_ok long_text (js ''why'') 2) = [c0, c1]"
    using arg_cong [OF long_text_calls [of answers_ok "js ''why''" 2], of length]
    by (auto simp: length_Suc_conv)
  have ne: "js ''ok'' \<noteq> []"
    by (simp add: js_def)
  from all_or_nothing [OF big refl, of answers_ok "js ''why''" 2] big
  show ?thesis
    by (simp add: calls r ne) (simp add: numeral_2_eq_2)
qed

section \<open>Claims about the completion call\<close>

lemma js_includes_prefix: "prefix p s \<Longrightarrow> js_includes s p"
  by (cases s) auto

text \<open>A needle whose first element occurs nowhere else in it cannot overlap itself.\<close>

lemma prefix_before_occurrence:
  assumes p: "prefix p (a @ p @ r)" and a: "a \<noteq> []"
    and first: "\<forall>d. 0 < d \<and> d < length p \<longrightarrow> p ! d \<noteq> p ! 0"
  shows "js_includes a p"
proof (cases "length p \<le> length a")
  case True
  with p have "prefix p a"
    by (metis prefix_length_prefix prefixI)
  then show ?thesis by (rule js_includes_prefix)
next
  case False
  define d where "d = length a"
  have d: "0 < d" "d < length p" using a False by (simp_all add: d_def)
  from p obtain z where z: "a @ p @ r = p @ z" by (auto simp: prefix_def)
  have "p \<noteq> []" using d by auto
  then have "(a @ p @ r) ! d = p ! 0"
    by (simp add: d_def nth_append)
  moreover have "(p @ z) ! d = p ! d"
    using d by (simp add: nth_append)
  ultimately have "p ! d = p ! 0" using z by simp
  with first d show ?thesis by blast
qed

lemma think_open_first: "\<forall>d. 0 < d \<and> d < length think_open \<longrightarrow> think_open ! d \<noteq> think_open ! 0"
proof (intro allI impI)
  fix d assume "0 < d \<and> d < length think_open"
  then have "d \<in> {1, 2, 3, 4, 5, 6}" by (auto simp: think_open_def js_def)
  then show "think_open ! d \<noteq> think_open ! 0"
    by (auto simp: think_open_def js_def)
qed

lemma think_close_first: "\<forall>d. 0 < d \<and> d < length think_close \<longrightarrow> think_close ! d \<noteq> think_close ! 0"
proof (intro allI impI)
  fix d assume "0 < d \<and> d < length think_close"
  then have "d \<in> {1, 2, 3, 4, 5, 6, 7}" by (auto simp: think_close_def js_def)
  then show "think_close ! d \<noteq> think_close ! 0"
    by (auto simp: think_close_def js_def)
qed

lemma after_first_block:
  assumes "\<not> js_includes b think_close"
  shows "after_first think_close (b @ think_close @ rest) = Some rest"
  using assms
proof (induction b)
  case Nil
  have "think_close \<noteq> []" by (simp add: think_close_def js_def)
  then obtain c cs where "think_close = c # cs" by (cases think_close) auto
  then show ?case by (metis after_first.simps(2) append_Cons append_Nil append_eq_conv_conj prefixI)
next
  case (Cons x b)
  have "\<not> prefix think_close ((x # b) @ think_close @ rest)"
    using prefix_before_occurrence [OF _ _ think_close_first, of "x # b" rest] Cons.prems by blast
  moreover have "\<not> js_includes b think_close" using Cons.prems by simp
  ultimately show ?case using Cons.IH by simp
qed

lemma strip_think_no_open:
  "\<not> js_includes s think_open \<Longrightarrow> strip_think s = s"
  by (induction s) (simp_all add: strip_think.simps)

lemma strip_think_block:
  assumes "\<not> js_includes a think_open" and "\<not> js_includes b think_close"
  shows "strip_think (a @ think_open @ b @ think_close @ rest) = a @ strip_think rest"
  using assms(1)
proof (induction a)
  case Nil
  obtain c cs where o: "think_open = c # cs"
    by (cases think_open) (auto simp: think_open_def js_def)
  let ?X = "b @ think_close @ rest"
  have e: "c # (cs @ ?X) = think_open @ ?X" by (simp add: o)
  have "strip_think (c # (cs @ ?X)) =
          (if prefix think_open (c # (cs @ ?X)) then
             (case after_first think_close (drop (length think_open) (c # (cs @ ?X))) of
                Some rest \<Rightarrow> strip_think rest
              | None \<Rightarrow> c # strip_think (cs @ ?X))
           else c # strip_think (cs @ ?X))"
    by (rule strip_think.simps(2))
  also have "\<dots> = strip_think rest"
    unfolding e using after_first_block [OF assms(2), of rest] by simp
  finally show ?case by (simp add: o)
next
  case (Cons x a)
  have "\<not> prefix think_open ((x # a) @ think_open @ b @ think_close @ rest)"
    using prefix_before_occurrence [OF _ _ think_open_first, of "x # a" "b @ think_close @ rest"]
      Cons.prems by blast
  moreover have "\<not> js_includes a think_open" using Cons.prems by simp
  ultimately show ?case using Cons.IH by (simp add: strip_think.simps)
qed


lemma ai_loop_run:
  assumes "i \<le> k" and "k \<le> n"
    and "\<forall>j. i \<le> j \<and> j < k \<longrightarrow> (\<exists>message. create query j = Throws message)"
    and "k < n \<longrightarrow> create query k = Content content"
  shows "ai_loop create query n i =
           (if k < n then Some (trim (strip_think (case content of None \<Rightarrow> [] | Some t \<Rightarrow> t)))
            else None,
            concat (map (\<lambda>i. Create query # (if i < n - 1 then [Sleep (1000 * 2 ^ i)] else []))
                        [i..<k])
            @ (if k < n then [Create query] else []))"
  using assms
proof (induction "k - i" arbitrary: i)
  case 0
  then have "i = k" by simp
  with 0 show ?case
    by (simp add: ai_loop.simps [of create query n k])
next
  case (Suc d)
  then have lt: "i < k" "i < n" by simp_all
  with Suc.prems obtain message where t: "create query i = Throws message" by blast
  have "d = k - (i + 1)" using Suc.hyps(2) by simp
  moreover have "i + 1 \<le> k" using lt by simp
  moreover have "\<forall>j. i + 1 \<le> j \<and> j < k \<longrightarrow> (\<exists>message. create query j = Throws message)"
    using Suc.prems(3) by simp
  ultimately have IH: "ai_loop create query n (i + 1) =
           (if k < n then Some (trim (strip_think (case content of None \<Rightarrow> [] | Some t \<Rightarrow> t)))
            else None,
            concat (map (\<lambda>i. Create query # (if i < n - 1 then [Sleep (1000 * 2 ^ i)] else []))
                        [i + 1..<k])
            @ (if k < n then [Create query] else []))"
    using Suc.prems(2,4) by (intro Suc.hyps(1))
  have u: "[i..<k] = i # [i + 1..<k]" using lt by (simp add: upt_conv_Cons)
  show ?case
    unfolding ai_loop.simps [of create query n i] IH u using lt t by simp
qed

lemma failed_attempts_creates:
  "length (filter (\<lambda>e. e = Create query) (failed_attempts query n k)) = k"
  unfolding failed_attempts_def
proof (induction k)
  case 0
  show ?case by simp
next
  case (Suc k)
  then show ?case by simp
qed

lemma first_response:
  fixes n :: nat and create :: completion_world
  shows "\<exists>k\<le>n. (\<forall>j<k. \<exists>message. create query j = Throws message)
         \<and> (k < n \<longrightarrow> (\<exists>content. create query k = Content content))"
proof -
  define P where "P j \<longleftrightarrow> (\<exists>content. create query j = Content content)" for j
  have throws: "\<exists>message. create query j = Throws message" if "\<not> P j" for j
    using that unfolding P_def by (cases "create query j") auto
  show ?thesis
  proof (cases "\<exists>j<n. P j")
    case True
    then obtain j where j: "j < n" "P j" by blast
    define k where "k = (LEAST j. P j)"
    have k: "P k" unfolding k_def using j(2) by (rule LeastI)
    have "k \<le> j" unfolding k_def using j(2) by (rule Least_le)
    with j(1) have "k \<le> n" by simp
    moreover have "\<exists>message. create query i = Throws message" if "i < k" for i
      using that not_less_Least [of i P] throws unfolding k_def by blast
    moreover have "\<exists>content. create query k = Content content"
      using k unfolding P_def .
    ultimately show ?thesis by blast
  next
    case False
    then have "\<exists>message. create query j = Throws message" if "j < n" for j
      using that throws by blast
    then show ?thesis by (intro exI [of _ n]) auto
  qed
qed

text \<open>
  C8. For every prompt and retry budget \<open>n\<close>, \<open>getAiResponse\<close> sends at most \<open>n\<close> requests.
  Some number \<open>k \<le> n\<close> of attempts throw in a row; failed attempt \<open>i\<close> is followed by a delay
  of \<open>1000 * 2^i\<close> milliseconds when \<open>i < n - 1\<close>. If \<open>k < n\<close>, attempt \<open>k\<close> answers and the
  value is its content without the reasoning blocks, trimmed; the value is \<open>null\<close> only when
  \<open>k = n\<close>, after \<open>n\<close> failed attempts. Stripping keeps a text without an opening tag as it
  is, and drops each block that reaches from an opening tag to the first closing tag behind it.
\<close>

theorem retry_backoff:
  "(\<exists>k\<le>n. (\<forall>j<k. \<exists>message. create query j = Throws message)
       \<and> (if k < n then
            \<exists>content. create query k = Content content
              \<and> getAiResponse create query n =
                  (Some (trim (strip_think (case content of None \<Rightarrow> [] | Some t \<Rightarrow> t))),
                   failed_attempts query n k @ [Create query])
          else getAiResponse create query n = (None, failed_attempts query n n)))
   \<and> length (filter (\<lambda>e. e = Create query) (snd (getAiResponse create query n))) \<le> n
   \<and> (\<forall>s. \<not> js_includes s think_open \<longrightarrow> strip_think s = s)
   \<and> (\<forall>a b rest. \<not> js_includes a think_open \<and> \<not> js_includes b think_close \<longrightarrow>
         strip_think (a @ think_open @ b @ think_close @ rest) = a @ strip_think rest)"
proof -
  obtain k where k: "k \<le> n" "\<forall>j<k. \<exists>message. create query j = Throws message"
    "k < n \<longrightarrow> (\<exists>content. create query k = Content content)"
    using first_response [of n create query] by blast
  have run: "\<exists>content. create query k = Content content
              \<and> getAiResponse create query n =
                  (Some (trim (strip_think (case content of None \<Rightarrow> [] | Some t \<Rightarrow> t))),
                   failed_attempts query n k @ [Create query])" if "k < n"
  proof -
    from k(3) that obtain content where c: "create query k = Content content" by blast
    have "getAiResponse create query n =
                  (Some (trim (strip_think (case content of None \<Rightarrow> [] | Some t \<Rightarrow> t))),
                   failed_attempts query n k @ [Create query])"
      unfolding getAiResponse_def failed_attempts_def
      using ai_loop_run [of 0 k n create query content] k(1,2) c that by simp
    with c show ?thesis by blast
  qed
  have none: "getAiResponse create query n = (None, failed_attempts query n n)" if "\<not> k < n"
  proof -
    from that k(1) have "k = n" by simp
    then show ?thesis
      unfolding getAiResponse_def failed_attempts_def
      using ai_loop_run [of 0 n n create query None] k(2) by simp
  qed
  have count: "length (filter (\<lambda>e. e = Create query) (snd (getAiResponse create query n))) \<le> n"
  proof (cases "k < n")
    case True
    with run obtain content where "getAiResponse create query n =
                  (Some (trim (strip_think (case content of None \<Rightarrow> [] | Some t \<Rightarrow> t))),
                   failed_attempts query n k @ [Create query])" by blast
    then show ?thesis using True by (simp add: failed_attempts_creates)
  next
    case False
    with none show ?thesis by (simp add: failed_attempts_creates)
  qed
  have first: "\<exists>k\<le>n. (\<forall>j<k. \<exists>message. create query j = Throws message)
       \<and> (if k < n then
            \<exists>content. create query k = Content content
              \<and> getAiResponse create query n =
                  (Some (trim (strip_think (case content of None \<Rightarrow> [] | Some t \<Rightarrow> t))),
                   failed_attempts query n k @ [Create query])
          else getAiResponse create query n = (None, failed_attempts query n n))"
    using k(1,2) run none by (intro exI [of _ k]) simp
  from first count strip_think_no_open strip_think_block show ?thesis by blast
qed


theorem retry_backoff_witness:
  "getAiResponse flaky (js ''q'') 2 =
     (Some (js ''ok''), [Create (js ''q''), Sleep 1000, Create (js ''q'')])"
proof -
  note inst = retry_backoff [of 2 flaky "js ''q''"]
  from inst obtain k where k: "k \<le> 2"
    "\<forall>j<k. \<exists>message. flaky (js ''q'') j = Throws message"
    "if k < 2 then
        \<exists>content. flaky (js ''q'') k = Content content
          \<and> getAiResponse flaky (js ''q'') 2 =
              (Some (trim (strip_think (case content of None \<Rightarrow> [] | Some t \<Rightarrow> t))),
               failed_attempts (js ''q'') 2 k @ [Create (js ''q'')])
      else getAiResponse flaky (js ''q'') 2 = (None, failed_attempts (js ''q'') 2 2)"
    by blast
  have "k \<noteq> 0"
  proof
    assume "k = 0"
    with k(3) show False by (simp add: flaky_def)
  qed
  moreover have "k \<noteq> 2"
  proof
    assume "k = 2"
    with k(2) have "\<exists>message. flaky (js ''q'') 1 = Throws message" by simp
    then show False by (simp add: flaky_def)
  qed
  ultimately have k1: "k = 1" using k(1) by simp
  have run: "getAiResponse flaky (js ''q'') 2 =
              (Some (trim (strip_think (js ''<think>hmm</think> ok ''))),
               failed_attempts (js ''q'') 2 1 @ [Create (js ''q'')])"
    using k(3) unfolding k1 by (auto simp: flaky_def)
  from inst have no_open: "\<forall>s. \<not> js_includes s think_open \<longrightarrow> strip_think s = s"
    by blast
  from inst have blk: "\<forall>a b rest. \<not> js_includes a think_open \<and> \<not> js_includes b think_close \<longrightarrow>
         strip_think (a @ think_open @ b @ think_close @ rest) = a @ strip_think rest"
    by blast
  have c1: "\<not> js_includes [] think_open" "\<not> js_includes (js ''hmm'') think_close"
    "\<not> js_includes (js '' ok '') think_open"
    by (simp_all add: js_def think_open_def think_close_def)
  have block: "strip_think ([] @ think_open @ js ''hmm'' @ think_close @ js '' ok '')
                 = [] @ strip_think (js '' ok '')"
    using blk c1(1,2) by blast
  have rest: "strip_think (js '' ok '') = js '' ok ''"
    using no_open c1(3) by blast
  have "js ''<think>hmm</think> ok '' = [] @ think_open @ js ''hmm'' @ think_close @ js '' ok ''"
    by (simp add: js_def think_open_def think_close_def)
  with block rest have strip: "strip_think (js ''<think>hmm</think> ok '') = js '' ok ''"
    by simp
  have trim: "trim (js '' ok '') = js ''ok''"
    by (simp add: trim_def js_def is_space_def)
  have tr: "failed_attempts (js ''q'') 2 1 = [Create (js ''q''), Sleep 1000]"
    by (simp add: failed_attempts_def)
  show ?thesis
    unfolding run strip trim tr by simp
qed

section \<open>Claims about browsing\<close>

lemma browse_loop_denied:
  assumes "i \<le> k" and "k < n"
    and "\<forall>j. i \<le> j \<and> j < k \<longrightarrow>
           read url' j = ReadText []
           \<or> (\<exists>m. read url' j = ReadThrows m \<and> \<not> js_includes m (js ''Client Error''))"
    and "read url' k = ReadThrows message"
    and "js_includes message (js ''Client Error'')"
  shows "\<exists>tr. browse_loop read url' n i = (Inl access_denied, tr)
              \<and> length (filter (\<lambda>e. e = ReadJina url') tr) = k - i + 1
              \<and> last tr = ReadJina url'"
  using assms(1,3)
proof (induction "k - i" arbitrary: i)
  case 0
  then have "i = k" by simp
  then show ?case
    using assms(2,4,5) by (simp add: browse_loop.simps [of read url' n k])
next
  case (Suc d)
  then have lt: "i < k" "i < n" using assms(2) by simp_all
  have "d = k - (i + 1)" using Suc.hyps(2) by simp
  moreover have "i + 1 \<le> k" using lt by simp
  moreover have "\<forall>j. i + 1 \<le> j \<and> j < k \<longrightarrow>
           read url' j = ReadText []
           \<or> (\<exists>m. read url' j = ReadThrows m \<and> \<not> js_includes m (js ''Client Error''))"
    using Suc.prems(2) by simp
  ultimately obtain tr where tr: "browse_loop read url' n (i + 1) = (Inl access_denied, tr)"
      "length (filter (\<lambda>e. e = ReadJina url') tr) = k - (i + 1) + 1"
      "last tr = ReadJina url'"
    using Suc.hyps(1) [of "i + 1"] by blast
  have ne: "tr \<noteq> []" using tr(2) by auto
  have cnt: "Suc (k - Suc i) = k - i" using lt by simp
  from Suc.prems(2) lt
  consider "read url' i = ReadText []"
    | m where "read url' i = ReadThrows m" "\<not> js_includes m (js ''Client Error'')"
    by blast
  then show ?case
  proof cases
    case 1
    then show ?thesis
      using lt tr ne cnt by (simp add: browse_loop.simps [of read url' n i])
  next
    case 2
    then show ?thesis
      using lt tr ne cnt by (simp add: browse_loop.simps [of read url' n i])
  qed
qed

text \<open>
  C9. If attempt \<open>k\<close> of the page fetch in \<open>getBrowseResults\<close> is reached (every attempt
  before it returned an empty text or threw another error) and throws an error whose message
  contains \<open>Client Error\<close>, the function returns the access-denied text at once: the page
  was requested \<open>k + 1\<close> times, the failing request is the last event, and no completion call
  was started.
\<close>

theorem client_error_denied:
  assumes "k < maxRetry"
    and "\<forall>j<k. read url' j = ReadText []
           \<or> (\<exists>m. read url' j = ReadThrows m \<and> \<not> js_includes m (js ''Client Error''))"
    and "read url' k = ReadThrows message"
    and "js_includes message (js ''Client Error'')"
  shows "\<exists>tr. getBrowseResults read creates url' browseQuery maxRetry =
                (js ''Access to this URL is denied. Please try again.'', tr, [])
              \<and> length (filter (\<lambda>e. e = ReadJina url') tr) = k + 1
              \<and> last tr = ReadJina url'"
proof -
  from browse_loop_denied [of 0 k maxRetry read url' message] assms
  obtain tr where tr: "browse_loop read url' maxRetry 0 = (Inl access_denied, tr)"
      "length (filter (\<lambda>e. e = ReadJina url') tr) = k + 1" "last tr = ReadJina url'"
    by auto
  have "getBrowseResults read creates url' browseQuery maxRetry = (access_denied, tr, [])"
    by (simp add: getBrowseResults_def tr(1))
  with tr(2,3) show ?thesis
    unfolding access_denied_def by blast
qed

theorem client_error_denied_witness:
  "(1 :: nat) < 3
   \<and> refused (js ''https://example.org'') 0 = ReadText []
   \<and> refused (js ''https://example.org'') 1 = ReadThrows (js ''403 Client Error: Forbidden'')
   \<and> js_includes (js ''403 Client Error: Forbidden'') (js ''Client Error'')
   \<and> getBrowseResults refused answers_ok (js ''https://example.org'') (js ''why'') 3 =
       (js ''Access to this URL is denied. Please try again.'',
        [ReadJina (js ''https://example.org''), ReadJina (js ''https://example.org'')], [])"
proof -
  let ?u = "js ''https://example.org''"
  have h1: "(1 :: nat) < 3" by simp
  have h2: "\<forall>j<1. refused ?u j = ReadText []
           \<or> (\<exists>m. refused ?u j = ReadThrows m \<and> \<not> js_includes m (js ''Client Error''))"
    by (simp add: refused_def)
  have h3: "refused ?u 1 = ReadThrows (js ''403 Client Error: Forbidden'')"
    by (simp add: refused_def)
  have h4: "js_includes (js ''403 Client Error: Forbidden'') (js ''Client Error'')"
    by (simp add: js_def)
  from client_error_denied [of 1 3 refused ?u "js ''403 Client Error: Forbidden''" answers_ok
      "js ''why''", OF h1 h2 h3 h4]
  obtain tr where tr: "getBrowseResults refused answers_ok ?u (js ''why'') 3 =
                (js ''Access to this URL is denied. Please try again.'', tr, [])"
      "length (filter (\<lambda>e. e = ReadJina ?u) tr) = 1 + 1" "last tr = ReadJina ?u"
    by blast
  have run: "fst (snd (getBrowseResults refused answers_ok ?u (js ''why'') 3)) = [ReadJina ?u, ReadJina ?u]"
    by (simp add: getBrowseResults_def browse_loop.simps [of refused ?u 3] refused_def h4)
  have "refused ?u 0 = ReadText []" by (simp add: refused_def)
  with tr(1) run h1 h3 h4 show ?thesis by simp
qed

section \<open>Claims about the tool handlers\<close>

lemma settle_length: "length (settle vals order slots) = length slots"
  by (induction order arbitrary: slots) simp_all

lemma settle_nth:
  "i < length slots \<Longrightarrow>
     settle vals order slots ! i = (if i \<in> set order then Some (vals ! i) else slots ! i)"
proof (induction order arbitrary: slots)
  case Nil
  show ?case by simp
next
  case (Cons j order)
  then show ?case by (cases "i = j") simp_all
qed

lemma promise_all_complete:
  assumes "set order = {0..<length vals}"
  shows "promise_all order vals = Some vals"
proof -
  let ?slots = "settle vals order (replicate (length vals) None)"
  have "?slots = map Some vals"
  proof (rule nth_equalityI)
    show "length ?slots = length (map Some vals)"
      by (simp add: settle_length)
    fix i assume "i < length ?slots"
    then have i: "i < length vals" by (simp add: settle_length)
    then have "i \<in> set order" using assms by simp
    with i show "?slots ! i = map Some vals ! i"
      by (simp add: settle_nth)
  qed
  then show ?thesis
    by (simp add: promise_all_def list_all_iff comp_def)
qed

text \<open>
  C5. For every list of queries and every order in which the single searches complete, the
  text of \<open>multi_search\<close> is the delimited blocks of the queries joined by a blank line in the
  order of the input list, the block of \<open>queries[0]\<close> first; the same holds for
  \<open>multi_browse\<close> over its list of URLs.
\<close>

theorem results_in_input_order:
  assumes "set order = {0..<length queries}" and "set order' = {0..<length urls}"
  shows "multi_search_handler serperApiKey worlds order queries =
           Some (js_join (nl @ nl)
             (map (\<lambda>(i, q). search_block q (fst (getSearchResults serperApiKey (worlds i) q 3)))
                  (enumerate 0 queries)))
       \<and> multi_browse_handler reads creates order' urls query =
           Some (js_join (nl @ nl)
             (map (\<lambda>(i, u). browse_block u
                     (fst (getBrowseResults (reads i) (creates i) u
                             (case query of Some (c # cs) \<Rightarrow> c # cs | _ \<Rightarrow> []) 3)))
                  (enumerate 0 urls)))"
proof -
  have "promise_all order
          (map (\<lambda>(i, q). search_block q (fst (getSearchResults serperApiKey (worlds i) q 3)))
               (enumerate 0 queries)) =
        Some (map (\<lambda>(i, q). search_block q (fst (getSearchResults serperApiKey (worlds i) q 3)))
               (enumerate 0 queries))"
    using assms(1) by (intro promise_all_complete) simp
  moreover have "promise_all order'
          (map (\<lambda>(i, u). browse_block u
                     (fst (getBrowseResults (reads i) (creates i) u
                             (case query of Some (c # cs) \<Rightarrow> c # cs | _ \<Rightarrow> []) 3)))
               (enumerate 0 urls)) =
        Some (map (\<lambda>(i, u). browse_block u
                     (fst (getBrowseResults (reads i) (creates i) u
                             (case query of Some (c # cs) \<Rightarrow> c # cs | _ \<Rightarrow> []) 3)))
               (enumerate 0 urls))"
    using assms(2) by (intro promise_all_complete) simp
  ultimately show ?thesis
    by (simp add: multi_search_handler_def multi_browse_handler_def)
qed

theorem results_in_input_order_witness:
  "set [1, 0] = {0..<length [js ''q1'', js ''q2'']}
   \<and> set [0, 1] = {0..<length [js ''u1'', js ''u2'']}
   \<and> multi_search_handler (js ''key'') (\<lambda>i. no_results) [1, 0] [js ''q1'', js ''q2''] =
       Some (search_block (js ''q1'') (fst (getSearchResults (js ''key'') no_results (js ''q1'') 3))
             @ nl @ nl @
             search_block (js ''q2'') (fst (getSearchResults (js ''key'') no_results (js ''q2'') 3)))
   \<and> multi_browse_handler (\<lambda>i. refused) (\<lambda>i. answers_ok) [0, 1] [js ''u1'', js ''u2''] None =
       Some (browse_block (js ''u1'') (fst (getBrowseResults refused answers_ok (js ''u1'') [] 3))
             @ nl @ nl @
             browse_block (js ''u2'') (fst (getBrowseResults refused answers_ok (js ''u2'') [] 3)))"
proof -
  have h1: "set [1, 0] = {0..<length [js ''q1'', js ''q2'']}" by auto
  have h2: "set [0, 1] = {0..<length [js ''u1'', js ''u2'']}" by auto
  from results_in_input_order [OF h1 h2, of "js ''key''" "\<lambda>i. no_results" "\<lambda>i. refused"
      "\<lambda>i. answers_ok" None] h1 h2
  show ?thesis by simp
qed

section \<open>Claims about the bridge\<close>

lemma sessions_enqueue:
  "sessions (enqueue sid f srv) = (sessions srv)(sid := map_option (\<lambda>fs. fs @ [f]) (sessions srv sid))"
  by (simp add: enqueue_def)

lemma registeredTools_enqueue [simp]: "registeredTools (enqueue sid f srv) = registeredTools srv"
  by (simp add: enqueue_def)

lemma route_messages:
  assumes "pathname request = js ''/mcp/messages''" and "http_method request = js ''POST''"
  shows "fetch srv uuid request = fetch_messages srv request"
proof -
  have "js ''/mcp/messages'' \<noteq> js ''/mcp/sse''" by (simp add: js_def)
  with assms show ?thesis by (simp add: fetch_def)
qed

lemma method_names:
  "js ''tools/call'' \<noteq> js ''tools/list''"
  "js ''initialize'' \<noteq> js ''tools/list''"
  "js ''initialize'' \<noteq> js ''tools/call''"
  "js ''initialize'' \<noteq> js ''notifications/initialized''"
  "js ''notifications/initialized'' \<noteq> js ''tools/list''"
  "js ''notifications/initialized'' \<noteq> js ''tools/call''"
  by (simp_all add: js_def)

text \<open>
  A second \<open>init\<close> on the same object throws at its first registration and changes nothing.
\<close>

lemma init_again:
  assumes "js ''search'' \<in> set (registeredTools srv)"
  shows "init srv = (Some (Error (js ''Tool search is already registered'')), srv)"
proof -
  have "js ''Tool '' @ js ''search'' @ js '' is already registered''
          = js ''Tool search is already registered''"
    by (simp add: js_def)
  with assms show ?thesis
    by (simp add: init_def registerTool_def and_then_def)
qed

lemma registerTool_effect:
  assumes "registerTool name d h srv = (r, srv')"
  shows "sessions srv' = sessions srv \<and> tasks srv' = tasks srv
       \<and> set (registeredTools srv) \<subseteq> set (registeredTools srv')
       \<and> (r = None \<longrightarrow> name \<in> set (registeredTools srv'))"
  using assms by (auto simp: registerTool_def split: if_splits)

lemma and_then_effect:
  assumes "and_then x f = (r, srv')" and "x = (rx, sx)"
    and "\<And>s r' s'. f s = (r', s') \<Longrightarrow>
           sessions s' = sessions s \<and> tasks s' = tasks s
           \<and> set (registeredTools s) \<subseteq> set (registeredTools s')"
  shows "sessions srv' = sessions sx \<and> tasks srv' = tasks sx
       \<and> set (registeredTools sx) \<subseteq> set (registeredTools srv') \<and> (r = None \<longrightarrow> rx = None)"
proof (cases rx)
  case None
  with assms(1,2) have "f sx = (r, srv')" by (simp add: and_then_def)
  from assms(3) [OF this] None show ?thesis by simp
next
  case (Some e)
  with assms(1,2) show ?thesis by (simp add: and_then_def)
qed

lemma init_effect:
  assumes "init srv = (r, srv')"
  shows "sessions srv' = sessions srv \<and> tasks srv' = tasks srv
       \<and> set (registeredTools srv) \<subseteq> set (registeredTools srv')
       \<and> (r = None \<longrightarrow> js ''search'' \<in> set (registeredTools srv'))"
proof -
  obtain r1 s1 where 1: "registerTool (js ''search'')
          (js ''Search Google for a query and return brief snippets.'') Search srv = (r1, s1)"
    by (cases "registerTool (js ''search'')
          (js ''Search Google for a query and return brief snippets.'') Search srv") auto
  obtain r2 s2 where 2: "and_then (r1, s1) (registerTool (js ''browse'')
          (js ''Browse a webpage and answer a specific query based on its content.'') Browse)
          = (r2, s2)"
    by (cases "and_then (r1, s1) (registerTool (js ''browse'')
          (js ''Browse a webpage and answer a specific query based on its content.'') Browse)") auto
  obtain r3 s3 where 3: "and_then (r2, s2) (registerTool (js ''multi_search'')
          (js ''Perform multiple searches in parallel.'') MultiSearch) = (r3, s3)"
    by (cases "and_then (r2, s2) (registerTool (js ''multi_search'')
          (js ''Perform multiple searches in parallel.'') MultiSearch)") auto
  have 4: "and_then (r3, s3) (registerTool (js ''multi_browse'')
          (js ''Browse multiple webpages in parallel and answer a query.'') MultiBrowse) = (r, srv')"
    using assms by (simp add: init_def 1 2 3)
  note e1 = registerTool_effect [OF 1]
  have e2: "sessions s2 = sessions s1 \<and> tasks s2 = tasks s1
       \<and> set (registeredTools s1) \<subseteq> set (registeredTools s2) \<and> (r2 = None \<longrightarrow> r1 = None)"
    using 2 by (rule and_then_effect) (auto dest: registerTool_effect)
  have e3: "sessions s3 = sessions s2 \<and> tasks s3 = tasks s2
       \<and> set (registeredTools s2) \<subseteq> set (registeredTools s3) \<and> (r3 = None \<longrightarrow> r2 = None)"
    using 3 by (rule and_then_effect) (auto dest: registerTool_effect)
  have e4: "sessions srv' = sessions s3 \<and> tasks srv' = tasks s3
       \<and> set (registeredTools s3) \<subseteq> set (registeredTools srv') \<and> (r = None \<longrightarrow> r3 = None)"
    using 4 by (rule and_then_effect) (auto dest: registerTool_effect)
  from e1 e2 e3 e4 show ?thesis by auto
qed

text \<open>
  Every POST to a live session of an object whose \<open>McpServer\<close> holds \<open>search\<close> ends in the
  exception of the second \<open>init\<close>, before the body is read.
\<close>

lemma live_post_throws:
  assumes "pathname request = js ''/mcp/messages''" and "http_method request = js ''POST''"
    and "sessionId request = Some sid" and "sid \<noteq> []" and "sessions srv sid = Some frames"
    and "js ''search'' \<in> set (registeredTools srv)"
  shows "fetch srv uuid request = (Inl (Error (js ''Tool search is already registered'')), srv)"
proof -
  obtain c cs where "sid = c # cs" using assms(4) by (cases sid) auto
  with assms(3,5) show ?thesis
    by (simp add: route_messages [OF assms(1,2)] fetch_messages_def init_again [OF assms(6)])
qed

text \<open>
  A session is live only on an object whose \<open>McpServer\<close> holds \<open>search\<close>: the property holds
  for a fresh object and every request keeps it.
\<close>

lemma live_implies_registered:
  assumes "\<forall>sid. sessions srv sid \<noteq> None \<longrightarrow> js ''search'' \<in> set (registeredTools srv)"
    and "fetch srv uuid request = (r, srv')"
  shows "\<forall>sid. sessions srv' sid \<noteq> None \<longrightarrow> js ''search'' \<in> set (registeredTools srv')"
proof (cases "pathname request = js ''/mcp/sse''")
  case True
  obtain ri si where i: "init srv = (ri, si)" by (cases "init srv") auto
  note e = init_effect [OF i]
  show ?thesis
  proof (cases ri)
    case None
    with True i assms(2) have "srv' = si\<lparr>sessions := (sessions si)(uuid \<mapsto>
                    [Raw (js ''event: endpoint'' @ nl),
                     Raw (js ''data: '' @ origin request @ js ''/mcp/messages?sessionId='' @ uuid
                          @ nl @ nl)])\<rparr>"
      by (simp add: fetch_def)
    with e None show ?thesis by simp
  next
    case (Some err)
    with True i assms(2) have "srv' = si" by (simp add: fetch_def)
    with e assms(1) show ?thesis by auto
  qed
next
  case False
  show ?thesis
  proof (cases "pathname request = js ''/mcp/messages'' \<and> http_method request = js ''POST''")
    case other: False
    with False assms(2) have "srv' = srv" by (auto simp: fetch_def)
    with assms(1) show ?thesis by simp
  next
    case True
    then have fm: "fetch_messages srv request = (r, srv')"
      using assms(2) by (simp add: route_messages)
    show ?thesis
    proof (cases "\<exists>sid. sessionId request = Some sid \<and> sid \<noteq> [] \<and> sessions srv sid \<noteq> None")
      case no: False
      then have "srv' = srv"
        using fm by (auto simp: fetch_messages_def split: option.splits list.splits)
      with assms(1) show ?thesis by simp
    next
      case yes: True
      then obtain sid frames where s: "sessionId request = Some sid" "sid \<noteq> []"
        "sessions srv sid = Some frames" by auto
      then have "js ''search'' \<in> set (registeredTools srv)" using assms(1) by auto
      from live_post_throws [OF _ _ s this, of uuid] True assms(2)
      have "srv' = srv" by simp
      with assms(1) show ?thesis by simp
    qed
  qed
qed


text \<open>
  What lines 192 to 196 would do if \<open>init\<close> returned: an unknown tool name is answered with
  202 and the error \<open>-32601\<close> on the stream of the session.
\<close>

lemma dispatch_unknown_tool:
  assumes "sessions srv sid = Some frames"
    and "get_prop (Some b) (js ''method'') = Inr (Some (JStr (js ''tools/call'')))"
    and "get_prop (Some b) (js ''params'') = Inr params"
    and "get_prop params (js ''name'') = Inr name"
    and "\<forall>n. name = Some (JStr n) \<longrightarrow> n \<notin> fst ` set (toolsRegistry srv)"
    and "get_prop (Some b) (js ''id'') = Inr i"
  shows "dispatch srv sid (Some b) =
           (Inr (Response 202 (js ''Accepted'')),
            enqueue sid (Message (rpc_error i (- 32601) (js ''Tool not found''))) srv)"
proof -
  have lookup: "(case name of Some (JStr n) \<Rightarrow> map_of (toolsRegistry srv) n | _ \<Rightarrow> None) = None"
  proof (cases name)
    case None
    then show ?thesis by simp
  next
    case (Some v)
    show ?thesis
    proof (cases v)
      case (JStr n)
      with Some assms(5) have "n \<notin> fst ` set (toolsRegistry srv)" by simp
      then have "map_of (toolsRegistry srv) n = None"
        by (simp add: map_of_eq_None_iff)
      with Some JStr show ?thesis by simp
    qed (simp_all add: Some)
  qed
  show ?thesis
    using assms(2,3,4,6) lookup by (simp add: dispatch_def method_names)
qed

lemma get_prop_total:
  assumes "get_prop (Some b) key = Inr x"
  shows "\<exists>y. get_prop (Some b) key' = Inr y"
  using assms by (cases b) simp_all

lemma get_prop_defined:
  assumes "p \<noteq> JNull"
  shows "\<exists>y. get_prop (Some p) key = Inr y"
  using assms by (cases p) simp_all

text \<open>
  The statuses of the submission endpoint. Without a session id the answer is 400, and for a
  session that is not registered it is 404, whatever the body. For a live session the
  statuses written in lines 155 to 228 are 202 for the four methods of the bridge (for
  \<open>tools/call\<close> when \<open>params\<close> are not \<open>null\<close>) and 501 for anything else; they are reached
  only if \<open>init\<close> returns.
\<close>

lemma status_missing_session:
  assumes "pathname request = js ''/mcp/messages''" and "http_method request = js ''POST''"
    and "sessionId request = None \<or> sessionId request = Some []"
  shows "fetch srv uuid request = (Inr (Response 400 (js ''Missing sessionId'')), srv)"
  using assms(3) by (auto simp: route_messages [OF assms(1,2)] fetch_messages_def)

lemma status_unknown_session:
  assumes "pathname request = js ''/mcp/messages''" and "http_method request = js ''POST''"
    and "sessionId request = Some sid" and "sid \<noteq> []" and "sessions srv sid = None"
  shows "fetch srv uuid request = (Inr (Response 404 (js ''Session not found or expired'')), srv)"
proof -
  obtain c cs where "sid = c # cs" using assms(4) by (cases sid) auto
  with assms(3,5) show ?thesis
    by (simp add: route_messages [OF assms(1,2)] fetch_messages_def)
qed

lemma status_dispatch:
  assumes "get_prop (Some b) (js ''method'') = Inr m"
    and "m = Some (JStr (js ''tools/call'')) \<longrightarrow>
           (\<exists>p. get_prop (Some b) (js ''params'') = Inr (Some p) \<and> p \<noteq> JNull)"
  shows "\<exists>text. fst (dispatch srv sid (Some b)) =
           Inr (Response (if m \<in> {Some (JStr (js ''tools/list'')), Some (JStr (js ''tools/call'')),
                                  Some (JStr (js ''initialize'')),
                                  Some (JStr (js ''notifications/initialized''))}
                          then 202 else 501) text)"
proof -
  obtain i where i: "get_prop (Some b) (js ''id'') = Inr i"
    using get_prop_total [OF assms(1)] by blast
  note pre = assms(1) i
  consider (list) "m = Some (JStr (js ''tools/list''))"
    | (call) "m = Some (JStr (js ''tools/call''))"
    | (initialize) "m = Some (JStr (js ''initialize''))"
    | (initialized) "m = Some (JStr (js ''notifications/initialized''))"
    | (other) "m \<notin> {Some (JStr (js ''tools/list'')), Some (JStr (js ''tools/call'')),
                    Some (JStr (js ''initialize'')), Some (JStr (js ''notifications/initialized''))}"
    by blast
  then show ?thesis
  proof cases
    case list
    with pre show ?thesis
      by (simp add: dispatch_def Let_def)
  next
    case call
    with assms(2) obtain p where p: "get_prop (Some b) (js ''params'') = Inr (Some p)" "p \<noteq> JNull"
      by blast
    obtain name where name: "get_prop (Some p) (js ''name'') = Inr name"
      using get_prop_defined [OF p(2)] by blast
    obtain arguments where arguments: "get_prop (Some p) (js ''arguments'') = Inr arguments"
      using get_prop_defined [OF p(2)] by blast
    from pre call p name arguments show ?thesis
      by (simp add: dispatch_def Let_def method_names split: option.split)
  next
    case initialize
    with pre show ?thesis
      by (simp add: dispatch_def Let_def method_names)
  next
    case initialized
    with pre show ?thesis
      by (simp add: dispatch_def Let_def method_names)
  next
    case other
    with pre show ?thesis
      by (simp add: dispatch_def Let_def)
  qed
qed

lemma one_session_state:
  "sessions one_session (js ''s1'') =
     Some [Raw (js ''event: endpoint'' @ nl),
           Raw (js ''data: https://mcp.example/mcp/messages?sessionId=s1'' @ nl @ nl)]"
  "registeredTools one_session =
     [js ''search'', js ''browse'', js ''multi_search'', js ''multi_browse'']"
  "fst ` set (toolsRegistry one_session) =
     {js ''search'', js ''browse'', js ''multi_search'', js ''multi_browse''}"
  by (simp_all add: one_session_def fetch_def open_request_def init_def registerTool_def
        and_then_def js_def)

lemma submission_fields:
  "pathname (submission b) = js ''/mcp/messages''"
  "http_method (submission b) = js ''POST''"
  "sessionId (submission b) = Some (js ''s1'')"
  "js ''s1'' \<noteq> []"
  "body (submission b) = b"
  by (simp_all add: submission_def js_def)

text \<open>
  C6, on the object with the open stream of session \<open>s1\<close>: a \<open>tools/call\<close> request for the
  unknown tool \<open>translate\<close> is posted to the session. The claim has the error \<open>-32601\<close>,
  \<open>Tool not found\<close>, written to the stream. The code calls \<open>init\<close> again first (line 154),
  the \<open>McpServer\<close> refuses to register \<open>search\<close> a second time, and \<open>fetch\<close> ends with that
  exception: the stream of the session is as it was, with no error object on it. Had
  \<open>init\<close> returned, lines 192 to 196 would have written the error.
\<close>

theorem unknown_tool_post_throws:
  "fetch one_session (js ''s2'') (submission (Some call_unknown)) =
     (Inl (Error (js ''Tool search is already registered'')), one_session)
   \<and> sessions one_session (js ''s1'') =
       Some [Raw (js ''event: endpoint'' @ nl),
             Raw (js ''data: https://mcp.example/mcp/messages?sessionId=s1'' @ nl @ nl)]
   \<and> dispatch one_session (js ''s1'') (Some call_unknown) =
       (Inr (Response 202 (js ''Accepted'')),
        enqueue (js ''s1'')
          (Message (JObj [(js ''jsonrpc'', JStr (js ''2.0'')), (js ''id'', JNum 7),
                          (js ''error'', JObj [(js ''code'', JNum (- 32601)),
                                               (js ''message'', JStr (js ''Tool not found''))])]))
          one_session)"
proof -
  have reg: "js ''search'' \<in> set (registeredTools one_session)"
    by (simp add: one_session_state(2))
  have thrown: "fetch one_session (js ''s2'') (submission (Some call_unknown)) =
     (Inl (Error (js ''Tool search is already registered'')), one_session)"
    using submission_fields(1,2,3,4) one_session_state(1) reg by (rule live_post_throws)
  have m: "get_prop (Some call_unknown) (js ''method'') = Inr (Some (JStr (js ''tools/call'')))"
    by (simp add: call_unknown_def js_def)
  have p: "get_prop (Some call_unknown) (js ''params'')
             = Inr (Some (JObj [(js ''name'', JStr (js ''translate''))]))"
    by (simp add: call_unknown_def js_def)
  have n: "get_prop (Some (JObj [(js ''name'', JStr (js ''translate''))])) (js ''name'')
             = Inr (Some (JStr (js ''translate'')))"
    by simp
  have u: "\<forall>n. Some (JStr (js ''translate'')) = Some (JStr n) \<longrightarrow>
               n \<notin> fst ` set (toolsRegistry one_session)"
    unfolding one_session_state(3) by (simp add: js_def)
  have i: "get_prop (Some call_unknown) (js ''id'') = Inr (Some (JNum 7))"
    by (simp add: call_unknown_def js_def)
  have "dispatch one_session (js ''s1'') (Some call_unknown) =
           (Inr (Response 202 (js ''Accepted'')),
            enqueue (js ''s1'')
              (Message (rpc_error (Some (JNum 7)) (- 32601) (js ''Tool not found''))) one_session)"
    using one_session_state(1) m p n u i by (rule dispatch_unknown_tool)
  with thrown one_session_state(1) show ?thesis
    by (simp add: rpc_error_def id_field_def)
qed

text \<open>
  C7, at a submission the claim covers and the code does not: a POST to the live session
  \<open>s1\<close> whose body is a \<open>tools/call\<close> request without \<open>params\<close>. The claim has 202 for
  every \<open>tools/call\<close>. \<open>fetch\<close> ends with the exception of the second \<open>init\<close> and builds no
  response; and had \<open>init\<close> returned, reading \<open>body.params.name\<close> in line 193 would have
  thrown a TypeError, again without a response.
\<close>

theorem call_without_params_throws:
  "sessions one_session (js ''s1'') \<noteq> None
   \<and> fetch one_session (js ''s2'') (submission (Some call_without_params))
       = (Inl (Error (js ''Tool search is already registered'')), one_session)
   \<and> dispatch one_session (js ''s1'') (Some call_without_params) = (Inl TypeError, one_session)"
proof -
  have reg: "js ''search'' \<in> set (registeredTools one_session)"
    by (simp add: one_session_state(2))
  have thrown: "fetch one_session (js ''s2'') (submission (Some call_without_params)) =
     (Inl (Error (js ''Tool search is already registered'')), one_session)"
    using submission_fields(1,2,3,4) one_session_state(1) reg by (rule live_post_throws)
  have "dispatch one_session (js ''s1'') (Some call_without_params) = (Inl TypeError, one_session)"
    by (simp add: dispatch_def call_without_params_def js_def)
  with thrown one_session_state(1) show ?thesis by simp
qed

section \<open>Claims about the search fallback\<close>
















end
